(* ===== verification/Prelude.thy ===== *)
theory Prelude
  imports Complex_Main "HOL-Library.Multiset"
begin

text \<open>
  Shared vocabulary of the card-game development: the JavaScript outcomes of a
  handler (normal return or an escaping exception, together with the state the
  handler leaves behind), the encoding of non-ASCII string literals of the
  sources, time units, the descending-by-score sort that \<open>Array.prototype.sort\<close>
  with comparator \<open>(a, b) => b.score - a.score\<close> performs (stable since ES2019),
  the element swap of the Fisher-Yates loop, and the generic list lemmas the
  component theories share.
\<close>

named_theorems game_simps "unfolding rules for the session handlers of game.js"
named_theorems store_simps "unfolding rules for the score store of database.js"

section \<open>JavaScript exceptions and handler outcomes\<close>

text \<open>
  The exceptions the sources can raise. \<open>TypeError\<close> is a property read on
  \<open>undefined\<close> (\<open>card.isFlipped\<close> when \<open>find\<close> found nothing, \<open>card2.value\<close>
  when fewer than two cards are pending, \<open>levelConfig.grid\<close> for an unknown
  level); \<open>NoClient\<close> is the \<open>Error\<close> thrown when the Supabase client was never
  initialised; \<open>RemoteError\<close> is an error object returned or thrown by a remote
  call; \<open>NonFinite\<close> marks the one place where JavaScript arithmetic leaves the
  integers (a division by a zero flip count gives \<open>Infinity\<close>).
\<close>

datatype error = TypeError | NoClient | RemoteError | NonFinite

text \<open>
  A method of a JavaScript object may mutate its object and then throw: the caller
  sees the exception and the object as the method left it. \<open>Done s\<close> is a normal
  return with state \<open>s\<close>, \<open>Thrown e s\<close> an escaping exception \<open>e\<close> with the
  state \<open>s\<close> left behind.
\<close>

datatype 's js_outcome = Done 's | Thrown error 's

primrec outcome_state :: "'s js_outcome \<Rightarrow> 's" where
  "outcome_state (Done s) = s"
| "outcome_state (Thrown e s) = s"

primrec outcome_error :: "'s js_outcome \<Rightarrow> error option" where
  "outcome_error (Done s) = None"
| "outcome_error (Thrown e s) = Some e"

section \<open>Strings\<close>

text \<open>
  JavaScript strings are compared only for equality and emptiness in the modelled
  code, so any injective encoding of them is faithful. Literals of the sources that
  are not ASCII (Korean labels, emoji) are written as their Unicode code points and
  encoded in UTF-8 into HOL's byte-valued \<open>char\<close>s.
\<close>

fun utf8 :: "nat \<Rightarrow> string" where
  "utf8 c =
     (if c < 128 then [char_of c]
      else if c < 2048 then [char_of (192 + c div 64), char_of (128 + c mod 64)]
      else if c < 65536 then
        [char_of (224 + c div 4096), char_of (128 + (c div 64) mod 64), char_of (128 + c mod 64)]
      else [char_of (240 + c div 262144), char_of (128 + (c div 4096) mod 64),
            char_of (128 + (c div 64) mod 64), char_of (128 + c mod 64)])"

definition ustr :: "nat list \<Rightarrow> string" where
  "ustr cs = concat (map utf8 cs)"

text \<open>
  The default player name \<open>'\<dots>'\<close> (Korean for "anonymous") that
  \<open>startNewGame\<close>, \<open>saveGameScore\<close> and \<open>saveScoreToLocal\<close> substitute for an
  empty name (\<open>playerName || '\<dots>'\<close>).
\<close>

definition anonymous :: string where
  "anonymous = ustr [0xC775, 0xBA85]"

text \<open>
  \<open>String.prototype.trim\<close>: it removes the ECMAScript WhiteSpace and LineTerminator
  code points (U+0009 to U+000D, U+0020, U+00A0, U+1680, U+2000 to U+200A, U+2028,
  U+2029, U+202F, U+205F, U+3000, U+FEFF) from both ends. The model's strings are
  UTF-8 bytes, so a code point is matched by its encoding (\<open>js_ws\<close>, as byte values)
  at the start (\<open>ws_start\<close>) or the end (\<open>ws_end\<close>) of the string; each is the length
  of the encoding found there, 0 if none. UTF-8 is self-synchronising, so on the
  encoding of a JavaScript string a match is exactly the first or last code point.
\<close>

definition js_ws :: "nat list list" where
  "js_ws = map (\<lambda>c. map of_char (utf8 c))
     ([9, 10, 11, 12, 13, 32, 0xA0, 0x1680] @ [0x2000..<0x200B] @ [0x2028, 0x2029, 0x202F, 0x205F, 0x3000, 0xFEFF])"

definition ws_start :: "string \<Rightarrow> nat" where
  "ws_start s = (case find (\<lambda>w. take (length w) (map of_char s) = w) js_ws of None \<Rightarrow> 0 | Some w \<Rightarrow> length w)"

definition ws_end :: "string \<Rightarrow> nat" where
  "ws_end s =
     (case find (\<lambda>w. length w \<le> length s \<and> drop (length s - length w) (map of_char s) = w) js_ws of
        None \<Rightarrow> 0 | Some w \<Rightarrow> length w)"

lemma js_ws_bytes: "js_ws = [[9], [10], [11], [12], [13], [32], [194, 160], [225, 154, 128],
  [226, 128, 128], [226, 128, 129], [226, 128, 130], [226, 128, 131], [226, 128, 132], [226, 128, 133],
  [226, 128, 134], [226, 128, 135], [226, 128, 136], [226, 128, 137], [226, 128, 138],
  [226, 128, 168], [226, 128, 169], [226, 128, 175], [226, 129, 159], [227, 128, 128], [239, 187, 191]]"
  by (simp add: js_ws_def upt_rec)

lemma ws_start_less: "ws_start s \<noteq> 0 \<Longrightarrow> ws_start s \<le> length s"
  by (auto simp: ws_start_def split: option.splits dest!: find_Some_iff [THEN iffD1]
           dest: arg_cong [where f = length])

lemma ws_end_less: "ws_end s \<noteq> 0 \<Longrightarrow> ws_end s \<le> length s"
  by (auto simp: ws_end_def split: option.splits dest!: find_Some_iff [THEN iffD1])

function trim_start :: "string \<Rightarrow> string" where
  "trim_start s = (if ws_start s = 0 then s else trim_start (drop (ws_start s) s))"
  by pat_completeness auto
termination
proof (relation "measure length")
  fix s :: string
  assume "ws_start s \<noteq> 0"
  with ws_start_less [of s] show "(drop (ws_start s) s, s) \<in> measure length" by simp
qed simp

function trim_end :: "string \<Rightarrow> string" where
  "trim_end s = (if ws_end s = 0 then s else trim_end (take (length s - ws_end s) s))"
  by pat_completeness auto
termination
proof (relation "measure length")
  fix s :: string
  assume "ws_end s \<noteq> 0"
  with ws_end_less [of s] show "(take (length s - ws_end s) s, s) \<in> measure length" by simp
qed simp

declare trim_start.simps [simp del] trim_end.simps [simp del]

definition js_trim :: "string \<Rightarrow> string" where
  "js_trim s = trim_end (trim_start s)"

text \<open>
  A string is trimmed when no white space code point starts or ends it; this is what
  \<open>js_trim\<close> leaves unchanged, and the byte lemmas below decide it from the first or
  last byte.
\<close>

definition trimmed :: "string \<Rightarrow> bool" where
  "trimmed s \<longleftrightarrow> ws_start s = 0 \<and> ws_end s = 0"

lemma find_SomeD: "find P xs = Some x \<Longrightarrow> x \<in> set xs \<and> P x"
  by (induction xs) (auto split: if_splits)

lemma js_ws_nonempty: "w \<in> set js_ws \<Longrightarrow> w \<noteq> []"
  by (auto simp: js_ws_bytes)

lemma ws_start_0_iff: "ws_start s = 0 \<longleftrightarrow> (\<forall>w\<in>set js_ws. take (length w) (map of_char s) \<noteq> w)"
proof (cases "find (\<lambda>w. take (length w) (map of_char s) = w) js_ws")
  case (Some w)
  then have "w \<in> set js_ws" "take (length w) (map of_char s) = w" by (auto dest: find_SomeD)
  with Some show ?thesis by (auto simp: ws_start_def dest: js_ws_nonempty)
next
  case None
  then have "\<forall>w\<in>set js_ws. take (length w) (map of_char s) \<noteq> w" by (simp add: find_None_iff)
  with None show ?thesis by (simp add: ws_start_def)
qed

lemma ws_end_0_iff:
  "ws_end s = 0 \<longleftrightarrow> (\<forall>w\<in>set js_ws. \<not> (length w \<le> length s \<and> drop (length s - length w) (map of_char s) = w))"
proof (cases "find (\<lambda>w. length w \<le> length s \<and> drop (length s - length w) (map of_char s) = w) js_ws")
  case (Some w)
  then have "w \<in> set js_ws" "length w \<le> length s" "drop (length s - length w) (map of_char s) = w"
    by (auto dest: find_SomeD)
  with Some show ?thesis by (auto simp: ws_end_def dest: js_ws_nonempty)
next
  case None
  then have "\<forall>w\<in>set js_ws. \<not> (length w \<le> length s \<and> drop (length s - length w) (map of_char s) = w)"
    by (simp add: find_None_iff)
  with None show ?thesis by (simp add: ws_end_def)
qed

lemma js_trim_trimmed: "trimmed s \<Longrightarrow> js_trim s = s"
  by (simp add: trimmed_def js_trim_def trim_start.simps trim_end.simps)

lemma trimmed_sep:
  assumes k: "trimmed k" and v: "trimmed v" and c: "\<forall>w\<in>set js_ws. of_char c \<notin> set w"
  shows "trimmed (k @ c # v)"
proof -
  let ?K = "map of_char k :: nat list" and ?V = "map of_char v :: nat list"
  have "take (length w) (?K @ of_char c # ?V) \<noteq> w" if w: "w \<in> set js_ws" for w :: "nat list"
  proof (cases "length w \<le> length k")
    case True
    then show ?thesis using k w by (simp add: trimmed_def ws_start_0_iff)
  next
    case False
    then have eq: "take (length w) (?K @ of_char c # ?V) = ?K @ of_char c # take (length w - length k - 1) ?V"
      using False by (simp add: take_Cons')
    have m: "of_char c \<in> set (take (length w) (?K @ of_char c # ?V))" by (simp only: eq set_append) simp
    show ?thesis
    proof
      assume "take (length w) (?K @ of_char c # ?V) = w"
      with m have "of_char c \<in> set w" by (simp only:)
      with c w show False by blast
    qed
  qed
  moreover have "\<not> (length w \<le> length (k @ c # v) \<and> drop (length (k @ c # v) - length w) (?K @ of_char c # ?V) = w)"
    if w: "w \<in> set js_ws" for w :: "nat list"
  proof (cases "length w \<le> length v")
    case True
    then have "drop (length (k @ c # v) - length w) (?K @ of_char c # ?V) = drop (length v - length w) ?V"
      by (simp add: Suc_diff_le)
    then show ?thesis using v w True by (auto simp: trimmed_def ws_end_0_iff)
  next
    case False
    then have "length (k @ c # v) - length w \<le> length k" by simp
    then have eq: "drop (length (k @ c # v) - length w) (?K @ of_char c # ?V)
               = drop (length (k @ c # v) - length w) ?K @ of_char c # ?V" by simp
    have m: "of_char c \<in> set (drop (length (k @ c # v) - length w) (?K @ of_char c # ?V))"
      by (simp only: eq set_append) simp
    show ?thesis
    proof
      assume "length w \<le> length (k @ c # v) \<and> drop (length (k @ c # v) - length w) (?K @ of_char c # ?V) = w"
      with m have "of_char c \<in> set w" by (simp only:)
      with c w show False by blast
    qed
  qed
  ultimately show ?thesis by (simp add: trimmed_def ws_start_0_iff ws_end_0_iff)
qed

lemma ws_start_Cons: "of_char c \<notin> hd ` set js_ws \<Longrightarrow> ws_start (c # s) = 0"
  unfolding ws_start_0_iff
proof
  fix w assume "of_char c \<notin> hd ` set js_ws" and w: "w \<in> set js_ws"
  then have "hd w \<noteq> of_char c" by (metis imageI)
  then show "take (length w) (map of_char (c # s)) \<noteq> w"
    using js_ws_nonempty [OF w] by (cases w) auto
qed

lemma ws_end_snoc: "of_char c \<notin> last ` set js_ws \<Longrightarrow> ws_end (s @ [c]) = 0"
  unfolding ws_end_0_iff
proof
  fix w assume "of_char c \<notin> last ` set js_ws" and w: "w \<in> set js_ws"
  then have l: "last w \<noteq> of_char c" by (metis imageI)
  show "\<not> (length w \<le> length (s @ [c]) \<and> drop (length (s @ [c]) - length w) (map of_char (s @ [c])) = w)"
  proof
    assume "length w \<le> length (s @ [c]) \<and> drop (length (s @ [c]) - length w) (map of_char (s @ [c])) = w"
    then have "last w = of_char c"
      using js_ws_nonempty [OF w] by (metis last_drop last_map snoc_eq_iff_butlast drop_eq_Nil2 not_le)
    with l show False by simp
  qed
qed

lemmas js_trim_eval = js_trim_def trim_start.simps trim_end.simps ws_start_def ws_end_def js_ws_bytes


type_synonym ms = nat \<comment> \<open>a \<open>Date.now()\<close> reading or a delay, in milliseconds\<close>
type_synonym seconds = nat

section \<open>The interface between the session and the score store\<close>

text \<open>
  The five arguments \<open>handleGameComplete\<close> passes to
  \<open>DatabaseAPI.saveGameScore(playerName, score, level, cardsFlipped, timeSpent)\<close>.
\<close>

record score_entry =
  entry_player :: string
  entry_score :: int
  entry_level :: nat
  entry_flips :: nat
  entry_time :: seconds

section \<open>Array search\<close>

text \<open>
  The index of the first element satisfying a predicate, if any: the position of the
  object \<open>Array.prototype.find\<close> returns.
\<close>

fun find_idx :: "('a \<Rightarrow> bool) \<Rightarrow> 'a list \<Rightarrow> nat option" where
  "find_idx P [] = None"
| "find_idx P (x # xs) = (if P x then Some 0 else map_option Suc (find_idx P xs))"

section \<open>Generic lemmas\<close>

subsection \<open>Array search\<close>

lemma find_idx_Some: "find_idx P xs = Some i \<Longrightarrow> i < length xs \<and> P (xs ! i)"
  by (induction xs arbitrary: i) (auto split: if_splits)

lemma find_idx_None: "find_idx P xs = None \<longleftrightarrow> (\<forall>x\<in>set xs. \<not> P x)"
  by (induction xs) auto

lemma find_idx_first: "find_idx P xs = Some i \<Longrightarrow> j < i \<Longrightarrow> \<not> P (xs ! j)"
  by (induction xs arbitrary: i j) (auto simp: nth_Cons split: if_splits nat.splits)

text \<open>When the key of every element is its own position, the search is a bounds check.\<close>

lemma find_idx_key_index:
  assumes "\<forall>k<length xs. key (xs ! k) = k"
  shows "find_idx (\<lambda>x. key x = i) xs = (if i < length xs then Some i else None)"
proof (cases "find_idx (\<lambda>x. key x = i) xs")
  case None
  then have "\<not> i < length xs"
    using assms nth_mem [of i xs] by (auto simp: find_idx_None)
  with None show ?thesis by simp
next
  case (Some j)
  with assms show ?thesis by (auto dest: find_idx_Some)
qed

subsection \<open>Swapping two list elements\<close>

text \<open>\<open>[a[i], a[j]] = [a[j], a[i]]\<close> on an array, for indices in range.\<close>

definition swap :: "nat \<Rightarrow> nat \<Rightarrow> 'a list \<Rightarrow> 'a list" where
  "swap i j xs = xs[i := xs ! j, j := xs ! i]"

lemma length_swap [simp]: "length (swap i j xs) = length xs"
  by (simp add: swap_def)

lemma mset_swap_eq [simp]:
  "i < length xs \<Longrightarrow> j < length xs \<Longrightarrow> mset (swap i j xs) = mset xs"
  by (simp add: swap_def mset_swap)

subsection \<open>Sorting by descending score\<close>

text \<open>
  \<open>sort_key\<close> is an insertion sort, stable; sorting by the negated key is the
  stable descending sort of the sources' comparator.
\<close>

definition sort_desc :: "('a \<Rightarrow> int) \<Rightarrow> 'a list \<Rightarrow> 'a list" where
  "sort_desc f xs = sort_key (\<lambda>x. - f x) xs"

lemma mset_sort_desc [simp]: "mset (sort_desc f xs) = mset xs"
  by (simp add: sort_desc_def)

lemma set_sort_desc [simp]: "set (sort_desc f xs) = set xs"
  by (simp add: sort_desc_def)

lemma length_sort_desc [simp]: "length (sort_desc f xs) = length xs"
  by (simp add: sort_desc_def)

lemma sorted_sort_desc: "sorted (map (\<lambda>x. - f x) (sort_desc f xs))"
  by (simp add: sort_desc_def)

lemma sort_desc_filter:
  "sort_desc f (filter P xs) = filter P (sort_desc f xs)"
  by (simp add: sort_desc_def filter_sort)

text \<open>
  Every element of a descending list placed before position \<open>i\<close> has a score at
  least that of the element at \<open>i\<close>: the fact behind "the kept records are the
  highest-scoring ones".
\<close>

lemma sorted_desc_nth_mono:
  fixes f :: "'a \<Rightarrow> int"
  assumes "sorted (map (\<lambda>x. - f x) xs)" and "i \<le> j" and "j < length xs"
  shows "f (xs ! j) \<le> f (xs ! i)"
proof -
  have "i < length xs" using assms(2,3) by simp
  moreover have "(map (\<lambda>x. - f x) xs) ! i \<le> (map (\<lambda>x. - f x) xs) ! j"
    using assms by (intro sorted_nth_mono) auto
  ultimately show ?thesis using assms(3) by simp
qed

lemma sorted_desc_take_drop:
  fixes f :: "'a \<Rightarrow> int"
  assumes "sorted (map (\<lambda>x. - f x) xs)"
    and "x \<in> set (take n xs)" and "y \<in> set (drop n xs)"
  shows "f y \<le> f x"
proof -
  from assms(2) obtain i where i: "i < length xs" "i < n" "x = xs ! i"
    by (auto simp: in_set_conv_nth)
  from assms(3) obtain k where "k < length (drop n xs)" "y = drop n xs ! k"
    by (auto simp: in_set_conv_nth)
  then have k: "n + k < length xs" "y = xs ! (n + k)"
    by auto
  have "f (xs ! (n + k)) \<le> f (xs ! i)"
    using assms(1) i k by (intro sorted_desc_nth_mono) auto
  with i k show ?thesis by simp
qed

lemma sorted_desc_take:
  fixes f :: "'a \<Rightarrow> int"
  shows "sorted (map (\<lambda>x. - f x) xs) \<Longrightarrow> sorted (map (\<lambda>x. - f x) (take n xs))"
  by (simp add: take_map [symmetric] sorted_wrt_take)

subsection \<open>Counting\<close>

lemma count_list_append_two:
  "count_list (xs @ [a, a]) x = count_list xs x + (if x = a then 2 else 0)"
  by simp


lemma map_snd_upt_zip: "map (\<lambda>x. f (snd x)) (zip [0..<length ys] ys) = map f ys"
proof -
  have "map (\<lambda>x. f (snd x)) (zip [0..<length ys] ys) = map f (map snd (zip [0..<length ys] ys))"
    by (simp only: map_map comp_def)
  also have "map snd (zip [0..<length ys] ys) = ys" by (rule map_snd_zip) simp
  finally show ?thesis .
qed

end
