(* ===== verification/Config.thy ===== *)
theory Config
  imports Prelude
begin

text \<open>
  The configuration module \<open>src/scripts/config.js\<close>: the difficulty table
  \<open>GAME_LEVELS\<close>, the symbol table \<open>CARD_DATA\<close>, the score formula
  \<open>calculateScore\<close>, the clock display \<open>formatTime\<close>, and the deck generator
  \<open>generateRandomCards\<close> with its Fisher-Yates \<open>shuffleArray\<close>. Dictionary
  look-ups that may miss are \<open>option\<close>-valued; a property read on the missing
  entry is the \<open>TypeError\<close> branch of the model. \<open>Math.random()\<close> is a stream
  \<open>rnd :: nat \<Rightarrow> rat\<close> of its successive results, so that every draw is explicit.
\<close>

section \<open>Difficulty levels\<close>

record grid =
  rows :: nat
  cols :: nat

record level_config =
  level_name :: string
  level_grid :: grid
  timeLimit :: seconds
  targetFlips :: nat
  baseScore :: nat

definition GAME_LEVELS :: "nat \<rightharpoonup> level_config" where
  "GAME_LEVELS l =
     (if l = 1 then Some \<lparr>level_name = ustr [0xC26C, 0xC6C0], level_grid = \<lparr>rows = 3, cols = 4\<rparr>,
                         timeLimit = 120, targetFlips = 12, baseScore = 500\<rparr>
      else if l = 2 then Some \<lparr>level_name = ustr [0xBCF4, 0xD1B5], level_grid = \<lparr>rows = 4, cols = 4\<rparr>,
                         timeLimit = 180, targetFlips = 24, baseScore = 1000\<rparr>
      else if l = 3 then Some \<lparr>level_name = ustr [0xC5B4, 0xB824, 0xC6C0],
                         level_grid = \<lparr>rows = 4, cols = 6\<rparr>,
                         timeLimit = 240, targetFlips = 36, baseScore = 1500\<rparr>
      else None)"

section \<open>Card symbols\<close>

definition CARD_DATA :: "string \<rightharpoonup> string list" where
  "CARD_DATA theme =
     (if theme = ''animals'' then Some (map (\<lambda>c. ustr [c])
        [0x1F436, 0x1F431, 0x1F42D, 0x1F439, 0x1F430, 0x1F98A, 0x1F43B, 0x1F43C,
         0x1F438, 0x1F435, 0x1F427, 0x1F414, 0x1F986, 0x1F422, 0x1F40D, 0x1F98B])
      else if theme = ''fruits'' then Some (map ustr
        [[0x1F34E], [0x1F34A], [0x1F34B], [0x1F34C], [0x1F347], [0x1F353], [0x1F351], [0x1F352],
         [0x1F95D], [0x1F34D], [0x1F96D], [0x1F349], [0x1F951], [0x1F345], [0x1F336, 0xFE0F],
         [0x1F955]])
      else if theme = ''objects'' then Some (map (\<lambda>c. ustr [c])
        [0x26BD, 0x1F3C0, 0x1F3C8, 0x26BE, 0x1F94E, 0x1F3BE, 0x1F3D0, 0x1F3D3,
         0x1F3F8, 0x1F94D, 0x26F3, 0x1F3AF, 0x1F3B2, 0x1F3AE, 0x1F3A8, 0x1F3AA])
      else if theme = ''nature'' then Some (map ustr
        [[0x1F338], [0x1F33A], [0x1F33B], [0x1F337], [0x1F339], [0x1F33F], [0x1F340], [0x1F331],
         [0x1F332], [0x1F333], [0x1F334], [0x1F335], [0x1F33E], [0x2B50], [0x1F319],
         [0x2600, 0xFE0F]])
      else None)"

section \<open>The score formula\<close>

text \<open>
  \<open>calculateScore(timeSpent, cardsFlipped, level)\<close>. An unknown level makes
  \<open>levelConfig\<close> \<open>undefined\<close> and the read of \<open>baseScore\<close> throws. The time
  bonus is \<open>Math.floor\<close> of an integer. The efficiency bonus
  \<open>Math.floor(targetFlips / cardsFlipped * 200)\<close> is modelled in exact rational
  arithmetic, \<open>\<lfloor>200 t / c\<rfloor>\<close>; a zero flip count makes the quotient
  \<open>Infinity\<close>, which the model reports as \<open>NonFinite\<close> instead of a number.
\<close>

definition calculateScore :: "seconds \<Rightarrow> nat \<Rightarrow> nat \<Rightarrow> error + int" where
  "calculateScore timeSpent cardsFlipped lvl =
     (case GAME_LEVELS lvl of
        None \<Rightarrow> Inl TypeError
      | Some levelConfig \<Rightarrow>
          (let base = int (baseScore levelConfig);
               remainingTime = max 0 (int (timeLimit levelConfig) - int timeSpent);
               timeBonus = remainingTime * 5
           in if cardsFlipped = 0 then Inl NonFinite
              else (let efficiencyBonus = (int (targetFlips levelConfig) * 200) div int cardsFlipped;
                        finalScore = base + timeBonus + efficiencyBonus
                    in Inr (max 0 finalScore))))"

section \<open>Clock display\<close>

text \<open>
  \<open>formatTime(seconds)\<close>: minutes and seconds, each \<open>toString()\<close>-ed and
  \<open>padStart(2, '0')\<close>-ed, joined by a colon. \<open>nat_str\<close> is
  \<open>Number.prototype.toString\<close> on a non-negative integer.
\<close>

fun nat_str :: "nat \<Rightarrow> string" where
  "nat_str n = (if n < 10 then [char_of (48 + n)] else nat_str (n div 10) @ [char_of (48 + n mod 10)])"

declare nat_str.simps [simp del]

definition padStart2 :: "string \<Rightarrow> string" where
  "padStart2 s = replicate (2 - length s) (CHR ''0'') @ s"

definition formatTime :: "seconds \<Rightarrow> string" where
  "formatTime seconds = padStart2 (nat_str (seconds div 60)) @ CHR '':'' # padStart2 (nat_str (seconds mod 60))"

text \<open>The reading back of a clock display: the inverse the round trip is stated against.\<close>

definition parse_digits :: "string \<Rightarrow> nat" where
  "parse_digits cs = foldl (\<lambda>acc c. 10 * acc + (of_char c - 48)) 0 cs"

definition parse_time :: "string \<Rightarrow> seconds" where
  "parse_time s =
     (let m = takeWhile (\<lambda>c. c \<noteq> CHR '':'') s
      in parse_digits m * 60 + parse_digits (drop (Suc (length m)) s))"

section \<open>Relative dates\<close>

text \<open>
  \<open>formatDate(dateString)\<close> at time \<open>now\<close>, both in milliseconds since the epoch:
  the absolute difference in whole days rounded up (\<open>Math.ceil\<close>), shown as "today",
  "yesterday", "\<open>n\<close> days ago" up to a week, and as the locale date beyond (the
  locale rendering is not modelled: \<open>LocaleDate\<close> keeps the date).
  \<open>int_str\<close> is \<open>Number.prototype.toString\<close> on an integer.
\<close>

datatype date_text = DateText string | LocaleDate ms

definition int_str :: "int \<Rightarrow> string" where
  "int_str i = (if i < 0 then CHR ''-'' # nat_str (nat (- i)) else nat_str (nat i))"

definition formatDate :: "ms \<Rightarrow> ms \<Rightarrow> date_text" where
  "formatDate now date =
     (let diffTime = \<bar>int now - int date\<bar>;
          diffDays = (diffTime + 86399999) div 86400000
      in if diffDays = 1 then DateText (ustr [0xC624, 0xB298])
         else if diffDays = 2 then DateText (ustr [0xC5B4, 0xC81C])
         else if diffDays \<le> 7 then DateText (int_str (diffDays - 1) @ ustr [0xC77C, 32, 0xC804])
         else LocaleDate date)"

section \<open>Deck generation\<close>

text \<open>
  \<open>shuffleArray\<close>: for \<open>i\<close> from the last index down to 1, draw
  \<open>j = Math.floor(Math.random() * (i + 1))\<close> and swap positions \<open>i\<close> and \<open>j\<close>.
  \<open>fy_loop rnd k i xs\<close> is the loop at index \<open>i\<close> with \<open>k\<close> draws already made.
\<close>

definition draw_index :: "rat \<Rightarrow> nat \<Rightarrow> nat" where
  "draw_index r n = nat \<lfloor>r * of_nat n\<rfloor>"

fun fy_loop :: "(nat \<Rightarrow> rat) \<Rightarrow> nat \<Rightarrow> nat \<Rightarrow> 'a list \<Rightarrow> 'a list" where
  "fy_loop rnd k 0 xs = xs"
| "fy_loop rnd k (Suc i) xs =
     (let j = draw_index (rnd k) (Suc (Suc i)) in fy_loop rnd (Suc k) i (swap (Suc i) j xs))"

definition shuffleArray :: "(nat \<Rightarrow> rat) \<Rightarrow> 'a list \<Rightarrow> 'a list" where
  "shuffleArray rnd array = fy_loop rnd 0 (length array - 1) array"

text \<open>The contract of \<open>Math.random()\<close>: every result lies in \<open>[0, 1)\<close>.\<close>

definition random_ok :: "(nat \<Rightarrow> rat) \<Rightarrow> bool" where
  "random_ok rnd \<longleftrightarrow> (\<forall>k. 0 \<le> rnd k \<and> rnd k < 1)"

text \<open>
  \<open>generateRandomCards(level, theme)\<close>: \<open>totalPairs = rows * cols / 2\<close> (the
  \<open>slice\<close> bound truncates a fraction), the first \<open>totalPairs\<close> symbols of the
  theme, each pushed twice, then shuffled. A missing level or theme makes the
  \<open>.grid\<close> or \<open>.slice\<close> read throw.
\<close>

definition pair_up :: "'a list \<Rightarrow> 'a list" where
  "pair_up selected = concat (map (\<lambda>c. [c, c]) selected)"

definition generateRandomCards :: "(nat \<Rightarrow> rat) \<Rightarrow> nat \<Rightarrow> string \<Rightarrow> error + string list" where
  "generateRandomCards rnd lvl theme =
     (case GAME_LEVELS lvl of
        None \<Rightarrow> Inl TypeError
      | Some levelConfig \<Rightarrow>
          (let totalPairs = (rows (level_grid levelConfig) * cols (level_grid levelConfig)) div 2
           in case CARD_DATA theme of
                None \<Rightarrow> Inl TypeError
              | Some themeCards \<Rightarrow> Inr (shuffleArray rnd (pair_up (take totalPairs themeCards)))))"

section \<open>Storage keys\<close>

text \<open>
  \<open>STORAGE_KEYS\<close>: the \<open>localStorage\<close> keys of the player name, the score list, the
  last settings and the sound switch. The model keeps what each key holds in a field
  of its own (the score list in \<open>local_storage\<close>, name and settings in the
  application record), which is sound because the keys are distinct.
\<close>

record storage_keys =
  PLAYER_NAME :: string
  BEST_SCORES :: string
  GAME_SETTINGS :: string
  SOUND_ENABLED :: string

definition STORAGE_KEYS :: storage_keys where
  "STORAGE_KEYS =
     \<lparr>PLAYER_NAME = ''cardgame_player_name'', BEST_SCORES = ''cardgame_best_scores'',
      GAME_SETTINGS = ''cardgame_settings'', SOUND_ENABLED = ''cardgame_sound_enabled''\<rparr>"

section \<open>Properties of the score formula\<close>

lemma calculateScore_Some:
  assumes "GAME_LEVELS lvl = Some cfg" and "0 < c"
  shows "calculateScore t c lvl =
           Inr (int (baseScore cfg) + max 0 (int (timeLimit cfg) - int t) * 5
                + (int (targetFlips cfg) * 200) div int c)"
proof -
  have "0 \<le> (int (targetFlips cfg) * 200) div int c"
    by (simp add: pos_imp_zdiv_nonneg_iff assms(2))
  then show ?thesis
    using assms by (simp add: calculateScore_def Let_def)
qed

lemma calculateScore_errors:
  "calculateScore t c lvl = Inl e \<longleftrightarrow>
     (GAME_LEVELS lvl = None \<and> e = TypeError) \<or> (GAME_LEVELS lvl \<noteq> None \<and> c = 0 \<and> e = NonFinite)"
  by (auto simp: calculateScore_def Let_def split: option.splits)

lemma calculateScore_Inr_iff:
  "(\<exists>v. calculateScore t c lvl = Inr v) \<longleftrightarrow> GAME_LEVELS lvl \<noteq> None \<and> 0 < c"
  by (auto simp: calculateScore_def Let_def split: option.splits)

lemma calculateScore_lower_bound:
  assumes "calculateScore t c lvl = Inr v" and "GAME_LEVELS lvl = Some cfg"
  shows "int (baseScore cfg) \<le> v"
proof -
  have "0 < c" using assms calculateScore_Inr_iff by blast
  then have "0 \<le> (int (targetFlips cfg) * 200) div int c"
    by (simp add: pos_imp_zdiv_nonneg_iff)
  moreover have "0 \<le> max 0 (int (timeLimit cfg) - int t) * 5"
    by simp
  moreover have "v = int (baseScore cfg) + max 0 (int (timeLimit cfg) - int t) * 5
                   + (int (targetFlips cfg) * 200) div int c"
    using assms \<open>0 < c\<close> by (simp add: calculateScore_Some)
  ultimately show ?thesis by linarith
qed

text \<open>C12 (bounds): For a fixed level and move count, a longer completion time never gives a higher score.\<close>

lemma calculateScore_antitone_time:
  assumes "calculateScore t c lvl = Inr v" and "calculateScore t' c lvl = Inr v'" and "t \<le> t'"
  shows "v' \<le> v"
proof -
  obtain cfg where cfg: "GAME_LEVELS lvl = Some cfg" and c: "0 < c"
    using assms(1) calculateScore_Inr_iff by blast
  have "max 0 (int (timeLimit cfg) - int t') * 5 \<le> max 0 (int (timeLimit cfg) - int t) * 5"
    using assms(3) by simp
  moreover have "v = int (baseScore cfg) + max 0 (int (timeLimit cfg) - int t) * 5
                   + (int (targetFlips cfg) * 200) div int c"
    and "v' = int (baseScore cfg) + max 0 (int (timeLimit cfg) - int t') * 5
                   + (int (targetFlips cfg) * 200) div int c"
    using assms(1,2) cfg c by (simp_all add: calculateScore_Some)
  ultimately show ?thesis by linarith
qed

lemma calculateScore_antitone_moves:
  assumes "calculateScore t c lvl = Inr v" and "calculateScore t c' lvl = Inr v'" and "c \<le> c'"
  shows "v' \<le> v"
proof -
  obtain cfg where cfg: "GAME_LEVELS lvl = Some cfg" and c: "0 < c"
    using assms(1) calculateScore_Inr_iff by blast
  have "(int (targetFlips cfg) * 200) div int c' \<le> (int (targetFlips cfg) * 200) div int c"
    using assms(3) c by (intro zdiv_mono2) auto
  with assms cfg c show ?thesis by (simp add: calculateScore_Some)
qed

lemma calculateScore_scenario: "calculateScore 60 12 1 = Inr 1000"
  by (simp add: calculateScore_def GAME_LEVELS_def)

lemma calculateScore_one_move: "calculateScore 0 1 3 = Inr 9900"
  by (simp add: calculateScore_def GAME_LEVELS_def)

section \<open>Clock display round trip\<close>

lemma parse_digits_snoc: "parse_digits (xs @ [c]) = 10 * parse_digits xs + (of_char c - 48)"
  by (simp add: parse_digits_def)

lemma parse_digits_zeros: "parse_digits (replicate k (CHR ''0'') @ s) = parse_digits s"
proof -
  have "foldl (\<lambda>acc c. 10 * acc + (of_char c - 48)) 0 (replicate k (CHR ''0'')) = (0::nat)"
    by (induction k) simp_all
  then show ?thesis by (simp add: parse_digits_def)
qed

lemma nat_str_parse: "parse_digits (nat_str n) = n"
proof (induction n rule: nat_str.induct)
  case (1 n)
  show ?case
  proof (cases "n < 10")
    case True
    then show ?thesis by (simp add: parse_digits_def nat_str.simps [of n])
  next
    case False
    then have "parse_digits (nat_str n) = 10 * (n div 10) + n mod 10"
      using "1.IH" by (simp add: parse_digits_snoc nat_str.simps [of n])
    then show ?thesis by simp
  qed
qed

lemma nat_str_digit_chars: "c \<in> set (nat_str n) \<Longrightarrow> of_char c < (58::nat)"
proof (induction n rule: nat_str.induct)
  case (1 n)
  then show ?case by (cases "n < 10") (auto simp: nat_str.simps [of n])
qed

lemma padStart2_digit_chars: "c \<in> set (padStart2 (nat_str n)) \<Longrightarrow> of_char c < (58::nat)"
  by (auto simp: padStart2_def dest: nat_str_digit_chars)

text \<open>C36 (roundtrip): Reading back the minutes and seconds of the clock display formatTime s gives s again, for every number of seconds.\<close>

lemma formatTime_roundtrip: "parse_time (formatTime s) = s"
proof -
  let ?m = "padStart2 (nat_str (s div 60))" and ?r = "padStart2 (nat_str (s mod 60))"
  have no_colon: "\<forall>c\<in>set ?m. c \<noteq> CHR '':''"
    using padStart2_digit_chars by fastforce
  then have "takeWhile (\<lambda>c. c \<noteq> CHR '':'') (?m @ CHR '':'' # ?r) = ?m"
    by (simp add: takeWhile_append2)
  then have "parse_time (formatTime s) = parse_digits ?m * 60 + parse_digits ?r"
    by (simp add: parse_time_def formatTime_def)
  also have "\<dots> = s div 60 * 60 + s mod 60"
    by (simp add: padStart2_def parse_digits_zeros nat_str_parse)
  finally show ?thesis by simp
qed

lemma length_nat_str_small: "n < 100 \<Longrightarrow> length (nat_str n) \<le> 2"
  by (auto simp: nat_str.simps [of n] nat_str.simps [of "n div 10"])

lemma formatTime_length: "s < 6000 \<Longrightarrow> length (formatTime s) = 5"
  by (simp add: formatTime_def padStart2_def length_nat_str_small)

section \<open>Shuffle\<close>

lemma draw_index_less:
  assumes "0 \<le> r" and "r < 1" and "0 < n"
  shows "draw_index r n < n"
proof -
  have "r * of_nat n < of_nat n"
    using assms by simp
  then have "\<lfloor>r * of_nat n\<rfloor> < int n"
    by (simp add: floor_less_iff)
  moreover have "0 \<le> \<lfloor>r * of_nat n\<rfloor>"
    using assms(1) by simp
  ultimately show ?thesis by (simp add: draw_index_def nat_less_iff)
qed

lemma mset_fy_loop:
  "random_ok rnd \<Longrightarrow> i < length xs \<Longrightarrow> mset (fy_loop rnd k i xs) = mset xs"
proof (induction rnd k i xs rule: fy_loop.induct)
  case (1 rnd k xs)
  then show ?case by simp
next
  case (2 rnd k i xs)
  let ?j = "draw_index (rnd k) (Suc (Suc i))"
  have "?j < Suc (Suc i)"
    using "2.prems"(1) by (intro draw_index_less) (auto simp: random_ok_def)
  then have "mset (swap (Suc i) ?j xs) = mset xs"
    using "2.prems"(2) by simp
  moreover have "mset (fy_loop rnd (Suc k) i (swap (Suc i) ?j xs)) = mset (swap (Suc i) ?j xs)"
    using "2.prems" by (intro "2.IH") (auto simp: Let_def)
  ultimately show ?case by (simp add: Let_def)
qed

text \<open>C18 (equivalence): Whatever values in [0, 1) Math.random returns, shuffleArray returns a permutation of its input (same multiset).\<close>

theorem shuffleArray_perm: "random_ok rnd \<Longrightarrow> mset (shuffleArray rnd xs) = mset xs"
  by (cases xs) (simp_all add: shuffleArray_def mset_fy_loop)

section \<open>Deck\<close>

lemma mset_pair_up: "mset (pair_up xs) = mset xs + mset xs"
  by (induction xs) (auto simp: pair_up_def)

lemma count_mset_distinct: "distinct xs \<Longrightarrow> count (mset xs) x = (if x \<in> set xs then 1 else 0)"
  by (induction xs) auto

lemma animals_distinct: "CARD_DATA ''animals'' = Some syms \<Longrightarrow> distinct syms \<and> length syms = 16"
  by (auto simp: CARD_DATA_def ustr_def)

lemma GAME_LEVELS_cases:
  "GAME_LEVELS l = Some cfg \<Longrightarrow> (l = 1 \<or> l = 2 \<or> l = 3) \<and> level_grid cfg \<in> {\<lparr>rows = 3, cols = 4\<rparr>, \<lparr>rows = 4, cols = 4\<rparr>, \<lparr>rows = 4, cols = 6\<rparr>}"
  by (auto simp: GAME_LEVELS_def split: if_splits)

lemma generateRandomCards_mset:
  assumes "GAME_LEVELS l = Some cfg" and "CARD_DATA th = Some syms" and "random_ok rnd"
  shows "\<exists>d. generateRandomCards rnd l th = Inr d \<and>
           mset d = mset (pair_up (take ((rows (level_grid cfg) * cols (level_grid cfg)) div 2) syms))"
proof -
  have "mset (shuffleArray rnd xs) = mset xs" for xs :: "string list"
    using assms(3) by (cases xs) (simp_all add: shuffleArray_def mset_fy_loop)
  with assms(1,2) show ?thesis by (simp add: generateRandomCards_def)
qed

text \<open>C19 (functional): For every difficulty level the animal deck has rows*cols cards, an even number, and every symbol in it occurs exactly twice.\<close>

theorem generateRandomCards_paired:
  assumes "GAME_LEVELS l = Some cfg" and "random_ok rnd"
    and "generateRandomCards rnd l ''animals'' = Inr d"
  shows "length d = rows (level_grid cfg) * cols (level_grid cfg) \<and> even (length d)
         \<and> (\<forall>x\<in>set d. count (mset d) x = 2)"
proof -
  obtain syms where syms: "CARD_DATA ''animals'' = Some syms"
    by (simp add: CARD_DATA_def)
  let ?n = "(rows (level_grid cfg) * cols (level_grid cfg)) div 2"
  have d: "mset d = mset (take ?n syms) + mset (take ?n syms)"
    using generateRandomCards_mset [OF assms(1) syms assms(2)] assms(3) by (simp add: mset_pair_up)
  have grid: "level_grid cfg \<in> {\<lparr>rows = 3, cols = 4\<rparr>, \<lparr>rows = 4, cols = 4\<rparr>, \<lparr>rows = 4, cols = 6\<rparr>}"
    using GAME_LEVELS_cases [OF assms(1)] by blast
  have dist: "distinct syms" and len: "length syms = 16"
    using animals_distinct [OF syms] by auto
  have n: "?n \<le> 16"
    using grid by auto
  have ld: "length d = 2 * ?n"
    using arg_cong [OF d, of size] n len by simp
  moreover have "\<forall>x\<in>set d. count (mset d) x = 2"
  proof
    fix x assume "x \<in> set d"
    then have "x \<in> set (take ?n syms)"
      using arg_cong [OF d, of set_mset] by simp
    then show "count (mset d) x = 2"
      using d dist by (simp add: count_mset_distinct)
  qed
  ultimately show ?thesis using grid by (simp only: ld) auto
qed

section \<open>Dates\<close>

lemma formatDate_diff:
  "formatDate (t + d) t =
     (let diffDays = int ((d + 86399999) div 86400000)
      in if diffDays = 1 then DateText (ustr [0xC624, 0xB298])
         else if diffDays = 2 then DateText (ustr [0xC5B4, 0xC81C])
         else if diffDays \<le> 7 then DateText (int_str (diffDays - 1) @ ustr [0xC77C, 32, 0xC804])
         else LocaleDate t)"
proof -
  have "(\<bar>int (t + d) - int t\<bar> + 86399999) div 86400000 = int ((d + 86399999) div 86400000)"
    by (simp add: zdiv_int [symmetric])
  then show ?thesis by (simp only: formatDate_def Let_def)
qed

theorem formatDate_day_buckets:
  assumes "0 < d"
  shows "(d \<le> 86400000 \<longrightarrow> formatDate (t + d) t = DateText (ustr [0xC624, 0xB298]))
       \<and> (86400000 < d \<and> d \<le> 172800000 \<longrightarrow> formatDate (t + d) t = DateText (ustr [0xC5B4, 0xC81C]))
       \<and> (604800000 < d \<longrightarrow> formatDate (t + d) t = LocaleDate t)"
proof (intro conjI impI)
  assume "d \<le> 86400000"
  then have "(d + 86399999) div 86400000 = 1" using assms by (intro div_nat_eqI) auto
  then show "formatDate (t + d) t = DateText (ustr [0xC624, 0xB298])" by (simp add: formatDate_diff)
next
  assume "86400000 < d \<and> d \<le> 172800000"
  then have "(d + 86399999) div 86400000 = 2" by (intro div_nat_eqI) auto
  then show "formatDate (t + d) t = DateText (ustr [0xC5B4, 0xC81C])" by (simp add: formatDate_diff)
next
  assume "604800000 < d"
  then have "(691200000::nat) div 86400000 \<le> (d + 86399999) div 86400000" by (intro div_le_mono) simp
  then have "8 \<le> (d + 86399999) div 86400000" by simp
  then show "formatDate (t + d) t = LocaleDate t" by (simp add: formatDate_diff)
qed

section \<open>Witnesses\<close>

theorem calculateScore_antitone_time_witness: "calculateScore 10 12 1 = Inr 1250 \<and> calculateScore 60 12 1 = Inr 1000 \<and> (10::nat) \<le> 60
   \<and> (1000::int) \<le> 1250"
proof -
  have a: "calculateScore 10 12 1 = Inr 1250" and b: "calculateScore 60 12 1 = Inr 1000"
    by (simp_all add: calculateScore_def GAME_LEVELS_def)
  from calculateScore_antitone_time [OF a b] a b show ?thesis by simp
qed

theorem calculateScore_lower_bound_witness: "calculateScore 60 12 1 = Inr 1000 \<and> GAME_LEVELS 1 = Some (the (GAME_LEVELS 1))
   \<and> int (baseScore (the (GAME_LEVELS 1))) \<le> 1000"
proof -
  have a: "calculateScore 60 12 1 = Inr 1000" by (simp add: calculateScore_def GAME_LEVELS_def)
  have b: "GAME_LEVELS 1 = Some (the (GAME_LEVELS 1))" by (simp add: GAME_LEVELS_def)
  from calculateScore_lower_bound [OF a b] a b show ?thesis by simp
qed

theorem calculateScore_errors_witness: "calculateScore 60 0 1 = Inl NonFinite"
  using calculateScore_errors [of 60 0 1 NonFinite] by (simp add: GAME_LEVELS_def)

theorem shuffleArray_perm_witness: "random_ok (\<lambda>_. 0) \<and> mset (shuffleArray (\<lambda>_. 0) [1, 2, 3 :: nat]) = mset [1, 2, 3]"
proof -
  have r: "random_ok (\<lambda>_. 0)" by (simp add: random_ok_def)
  from shuffleArray_perm [OF r] r show ?thesis by blast
qed

theorem generateRandomCards_paired_witness: "\<exists>d. GAME_LEVELS 1 = Some (the (GAME_LEVELS 1)) \<and> random_ok (\<lambda>_. 0)
   \<and> generateRandomCards (\<lambda>_. 0) 1 ''animals'' = Inr d \<and> length d = 12 \<and> (\<forall>x\<in>set d. count (mset d) x = 2)"
proof -
  have g: "GAME_LEVELS 1 = Some (the (GAME_LEVELS 1))" by (simp add: GAME_LEVELS_def)
  have r: "random_ok (\<lambda>_. 0)" by (simp add: random_ok_def)
  obtain d where d: "generateRandomCards (\<lambda>_. 0) 1 ''animals'' = Inr d"
    using generateRandomCards_mset [OF g _ r, of "''animals''"] by (auto simp: CARD_DATA_def)
  from generateRandomCards_paired [OF g r d] g r d show ?thesis by (auto simp: GAME_LEVELS_def)
qed

theorem formatDate_day_buckets_witness:
  "formatDate 3600000 0 = DateText (ustr [0xC624, 0xB298])
   \<and> formatDate 100000000 0 = DateText (ustr [0xC5B4, 0xC81C])
   \<and> formatDate 700000000 0 = LocaleDate 0"
  using formatDate_day_buckets [of 3600000 0] formatDate_day_buckets [of 100000000 0]
    formatDate_day_buckets [of 700000000 0] by simp

end
