(* ===== verification/Game.thy ===== *)
theory Game
  imports Config
begin

text \<open>
  The session object \<open>CardGame\<close> of \<open>src/scripts/game.js\<close>. Its \<open>gameState\<close> is the
  record \<open>game_state\<close>; each method that changes it is a function from the state
  to a \<open>js_outcome\<close> of the new state and the effects the method hands to the
  runtime: timeouts it schedules (\<open>setTimeout\<close>), the game clock it starts or stops
  (\<open>setInterval\<close>, \<open>clearInterval\<close>), and the score it saves through
  \<open>DatabaseAPI.saveGameScore\<close>. DOM updates, sounds and particle effects change no
  state the program reads and are left out.

  Card objects are shared between \<open>gameState.cards\<close> and the pending list
  \<open>gameState.flippedCards\<close> (and \<open>matchedCards\<close>): a mutation through one is seen
  through the other. The model keeps the cards in \<open>cards\<close> and represents a
  reference by the card's position there; \<open>generateCards\<close> gives every card the id
  of its position, so \<open>cards.find(c => c.id === cardId)\<close> is the position search
  \<open>find_idx\<close>.
\<close>

section \<open>State\<close>

record card =
  card_id :: nat
  card_value :: string
  isFlipped :: bool
  isMatched :: bool

record game_state =
  isPlaying :: bool
  isPaused :: bool
  isGameOver :: bool
  level :: nat
  playerName :: string
  cards :: "card list"
  flippedCards :: "nat list"
  matchedCards :: "nat list"
  moves :: nat
  score :: int
  timeSpent :: seconds
  startTime :: "ms option"
  canFlip :: bool
  hintCount :: nat

text \<open>
  The deferred callbacks the session schedules: \<open>checkMatch\<close> after a second flip,
  the unflip of a mismatched pair (a closure over the two card objects), and
  \<open>handleGameComplete\<close> after the last match.
\<close>

datatype timeout_cb = CheckMatch | UnflipPair nat nat | GameComplete

datatype effect =
    SetTimeout ms timeout_cb
  | StartTimer
  | StopTimer
  | SaveScore score_entry

type_synonym game_result = "(game_state \<times> effect list) js_outcome"

section \<open>Starting and resetting a session\<close>

text \<open>
  The object literal of \<open>resetGameState\<close> (and of the constructor); the
  \<open>clearInterval\<close> of the running clock is the \<open>StopTimer\<close> effect.
\<close>

definition initial_state :: game_state where
  "initial_state =
     \<lparr>isPlaying = False, isPaused = False, isGameOver = False, level = 1, playerName = [],
      cards = [], flippedCards = [], matchedCards = [], moves = 0, score = 0, timeSpent = 0,
      startTime = None, canFlip = True, hintCount = 3\<rparr>"

definition resetGameState :: "game_state \<Rightarrow> game_state \<times> effect list" where
  "resetGameState s = (initial_state, [StopTimer])"

definition make_cards :: "string list \<Rightarrow> card list" where
  "make_cards vs = map (\<lambda>(i, v). \<lparr>card_id = i, card_value = v, isFlipped = False, isMatched = False\<rparr>)
                     (zip [0..<length vs] vs)"

text \<open>
  \<open>startNewGame(level, playerName)\<close> at time \<open>now\<close>, with \<open>rnd\<close> the draws of
  \<open>Math.random()\<close> its shuffle makes. For an unknown level \<open>setupGameBoard\<close> reads
  \<open>levelConfig.grid\<close> of \<open>undefined\<close> and throws after the state was reset.
\<close>

definition startNewGame :: "nat \<Rightarrow> string \<Rightarrow> ms \<Rightarrow> (nat \<Rightarrow> rat) \<Rightarrow> game_state \<Rightarrow> game_result" where
  "startNewGame lvl name now rnd s =
     (let (s0, eff0) = resetGameState s;
          s1 = s0\<lparr>level := lvl, playerName := (if name = [] then anonymous else name)\<rparr>
      in case GAME_LEVELS lvl of
           None \<Rightarrow> Thrown TypeError (s1, eff0)
         | Some _ \<Rightarrow>
             (case generateRandomCards rnd lvl ''animals'' of
                Inl e \<Rightarrow> Thrown e (s1, eff0)
              | Inr vs \<Rightarrow>
                  Done (s1\<lparr>cards := make_cards vs, isPlaying := True, startTime := Some now\<rparr>,
                        eff0 @ [StartTimer])))"

text \<open>\<open>resetGame()\<close>: \<open>confirm\<close> is the user's answer to the dialog.\<close>

definition resetGame :: "bool \<Rightarrow> ms \<Rightarrow> (nat \<Rightarrow> rat) \<Rightarrow> game_state \<Rightarrow> game_result" where
  "resetGame confirm now rnd s =
     (if confirm then startNewGame (level s) (playerName s) now rnd s else Done (s, []))"

section \<open>Flipping cards\<close>

definition set_card :: "nat \<Rightarrow> (card \<Rightarrow> card) \<Rightarrow> game_state \<Rightarrow> game_state" where
  "set_card i f s = s\<lparr>cards := (cards s)[i := f (cards s ! i)]\<rparr>"

definition flipCard :: "nat \<Rightarrow> game_state \<Rightarrow> game_state" where
  "flipCard i s = set_card i (\<lambda>c. c\<lparr>isFlipped := True\<rparr>) s"

definition unflipCard :: "nat \<Rightarrow> game_state \<Rightarrow> game_state" where
  "unflipCard i s = set_card i (\<lambda>c. c\<lparr>isFlipped := False\<rparr>) s"

text \<open>
  \<open>handleCardClick(cardId)\<close>: ignored while flipping is locked, paused or over;
  a missing card makes \<open>card.isFlipped\<close> throw; a face-up or matched card, or a
  third card while two are pending, is ignored. Otherwise the card is flipped and
  pushed; the second one counts a move and schedules \<open>checkMatch\<close> in 600 ms.
\<close>

definition handleCardClick :: "nat \<Rightarrow> game_state \<Rightarrow> game_result" where
  "handleCardClick cardId s =
     (if \<not> canFlip s \<or> isPaused s \<or> isGameOver s then Done (s, [])
      else case find_idx (\<lambda>c. card_id c = cardId) (cards s) of
        None \<Rightarrow> Thrown TypeError (s, [])
      | Some i \<Rightarrow>
          (if isFlipped (cards s ! i) \<or> isMatched (cards s ! i) then Done (s, [])
           else if 2 \<le> length (flippedCards s) then Done (s, [])
           else
             (let s1 = flipCard i s;
                  s2 = s1\<lparr>flippedCards := flippedCards s1 @ [i]\<rparr>
              in if length (flippedCards s2) = 2
                 then Done (s2\<lparr>moves := moves s2 + 1\<rparr>, [SetTimeout 600 CheckMatch])
                 else Done (s2, []))))"

section \<open>Resolving a pair\<close>

text \<open>\<open>addScore(points)\<close>.\<close>

definition addScore :: "int \<Rightarrow> game_state \<Rightarrow> game_state" where
  "addScore points s = s\<lparr>score := score s + points\<rparr>"

text \<open>
  \<open>handleMatch(card1, card2)\<close>: both cards matched, pushed to \<open>matchedCards\<close>,
  100 points; when every card is matched, \<open>handleGameComplete\<close> is scheduled in
  1000 ms.
\<close>

definition handleMatch :: "nat \<Rightarrow> nat \<Rightarrow> game_state \<Rightarrow> game_state \<times> effect list" where
  "handleMatch c1 c2 s =
     (let s1 = set_card c2 (\<lambda>c. c\<lparr>isMatched := True\<rparr>) (set_card c1 (\<lambda>c. c\<lparr>isMatched := True\<rparr>) s);
          s2 = s1\<lparr>matchedCards := matchedCards s1 @ [c1, c2]\<rparr>;
          s3 = addScore 100 s2
      in if length (matchedCards s3) = length (cards s3)
         then (s3, [SetTimeout 1000 GameComplete]) else (s3, []))"

text \<open>
  \<open>handleMismatch(card1, card2)\<close>: flipping is locked and the unflip of the two
  card objects is scheduled in 1000 ms.
\<close>

definition handleMismatch :: "nat \<Rightarrow> nat \<Rightarrow> game_state \<Rightarrow> game_state \<times> effect list" where
  "handleMismatch c1 c2 s = (s\<lparr>canFlip := False\<rparr>, [SetTimeout 1000 (UnflipPair c1 c2)])"

text \<open>
  The unflip closure of \<open>handleMismatch\<close>. \<open>same_session\<close> tells whether the two
  captured card objects are still the cards of \<open>gameState\<close>; after a restart they
  belong to the discarded board, and only the unlock of \<open>this.gameState.canFlip\<close>
  reaches the new session.
\<close>

definition unflip_callback :: "bool \<Rightarrow> nat \<Rightarrow> nat \<Rightarrow> game_state \<Rightarrow> game_state" where
  "unflip_callback same_session c1 c2 s =
     (let s1 = (if same_session then unflipCard c2 (unflipCard c1 s) else s)
      in s1\<lparr>canFlip := True\<rparr>)"

text \<open>
  \<open>checkMatch()\<close>: the destructuring \<open>[card1, card2] = flippedCards\<close> reads
  \<open>undefined\<close> when fewer than two cards are pending, and \<open>card1.value\<close> or
  \<open>card2.value\<close> throws; otherwise the pair is resolved and the pending list emptied.
\<close>

definition checkMatch :: "game_state \<Rightarrow> game_result" where
  "checkMatch s =
     (case flippedCards s of
        c1 # c2 # _ \<Rightarrow>
          (let (s1, eff) = (if card_value (cards s ! c1) = card_value (cards s ! c2)
                            then handleMatch c1 c2 s else handleMismatch c1 c2 s)
           in Done (s1\<lparr>flippedCards := []\<rparr>, eff))
      | _ \<Rightarrow> Thrown TypeError (s, []))"

section \<open>Completion\<close>

text \<open>
  \<open>handleGameComplete()\<close>: the session is over, the clock stopped, the final score
  computed by \<open>calculateScore\<close> and handed to the score store. The method is
  \<open>async\<close>: everything up to the \<open>await\<close> of the save runs at once; what follows
  only schedules the result dialog. For an unknown level \<open>calculateScore\<close> throws
  and rejects the method's promise after the first mutations. With zero moves the
  JavaScript division gives the score \<open>Infinity\<close>, which the integer score of the
  model cannot hold: the model stops there (\<open>NonFinite\<close>) with the session over and
  the clock stopped, as in the code, but without the save of that record.
\<close>

definition handleGameComplete :: "game_state \<Rightarrow> game_result" where
  "handleGameComplete s =
     (let s1 = s\<lparr>isGameOver := True, isPlaying := False\<rparr>
      in case calculateScore (timeSpent s1) (moves s1) (level s1) of
           Inl e \<Rightarrow> Thrown e (s1, [StopTimer])
         | Inr finalScore \<Rightarrow>
             (let s2 = s1\<lparr>score := finalScore\<rparr>
              in Done (s2, [StopTimer,
                            SaveScore \<lparr>entry_player = playerName s2, entry_score = score s2,
                                       entry_level = level s2, entry_flips = moves s2,
                                       entry_time = timeSpent s2\<rparr>])))"

section \<open>Clock, pause and hints\<close>

text \<open>
  The \<open>setInterval\<close> callback of \<open>startGameTimer\<close>, run at time \<open>now\<close>: unless
  paused, \<open>timeSpent = Math.floor((Date.now() - startTime) / 1000)\<close>
  (\<open>Date.now() - null\<close> is \<open>Date.now()\<close>).
\<close>

definition clock_tick :: "ms \<Rightarrow> game_state \<Rightarrow> game_state" where
  "clock_tick now s =
     (if \<not> isPaused s
      then s\<lparr>timeSpent := (now - (case startTime s of None \<Rightarrow> 0 | Some t \<Rightarrow> t)) div 1000\<rparr>
      else s)"

text \<open>\<open>togglePause()\<close>: only in a running session.\<close>

definition togglePause :: "game_state \<Rightarrow> game_state" where
  "togglePause s = (if \<not> isPlaying s \<or> isGameOver s then s else s\<lparr>isPaused := \<not> isPaused s\<rparr>)"

text \<open>
  \<open>findMatchingPairs(cards)\<close>: the outer loop over \<open>i\<close> skips cards already used;
  the inner loop looks for the first later unused card of the same value, and a hit
  records the pair and marks both cards used.
\<close>

fun find_partner :: "card \<Rightarrow> card list \<Rightarrow> nat list \<Rightarrow> card option" where
  "find_partner c [] used = None"
| "find_partner c (d # ds) used =
     (if card_id d \<in> set used then find_partner c ds used
      else if card_value c = card_value d then Some d
      else find_partner c ds used)"

fun pairs_loop :: "card list \<Rightarrow> nat list \<Rightarrow> (card \<times> card) list" where
  "pairs_loop [] used = []"
| "pairs_loop (c # cs) used =
     (if card_id c \<in> set used then pairs_loop cs used
      else case find_partner c cs used of
             None \<Rightarrow> pairs_loop cs used
           | Some d \<Rightarrow> (c, d) # pairs_loop cs (used @ [card_id c, card_id d]))"

definition findMatchingPairs :: "card list \<Rightarrow> (card \<times> card) list" where
  "findMatchingPairs cs = pairs_loop cs []"

text \<open>The card ids of a list of pairs, in order.\<close>

definition pair_ids :: "(card \<times> card) list \<Rightarrow> nat list" where
  "pair_ids ps = concat (map (\<lambda>(c, d). [card_id c, card_id d]) ps)"

text \<open>
  \<open>showHint()\<close>, with \<open>r\<close> the \<open>Math.random()\<close> draw that picks the pair. The
  result carries the pair revealed to the player; the pair is not flipped and no move
  is counted. An index outside the list (a draw outside \<open>[0, 1)\<close>) would make
  \<open>randomPair.forEach\<close> throw.
\<close>

definition showHint :: "rat \<Rightarrow> game_state \<Rightarrow> (game_state \<times> (card \<times> card) option) js_outcome" where
  "showHint r s =
     (if hintCount s \<le> 0 \<or> isPaused s \<or> isGameOver s then Done (s, None)
      else
        (let unmatchedCards = filter (\<lambda>c. \<not> isMatched c \<and> \<not> isFlipped c) (cards s)
         in if length unmatchedCards < 2 then Done (s, None)
            else
              (let pairs = findMatchingPairs unmatchedCards
               in if 0 < length pairs
                  then (let k = draw_index r (length pairs)
                        in if k < length pairs
                           then Done (s\<lparr>hintCount := hintCount s - 1\<rparr>, Some (pairs ! k))
                           else Thrown TypeError (s, None))
                  else Done (s, None))))"

section \<open>Well-formedness of a session\<close>

text \<open>
  Every card carries the id of its position; at most two distinct cards are pending,
  each face up and unmatched; \<open>matchedCards\<close> lists exactly the matched cards, once
  each; a matched card stays face up.
\<close>

definition ids_ok :: "game_state \<Rightarrow> bool" where
  "ids_ok s \<longleftrightarrow> (\<forall>k<length (cards s). card_id (cards s ! k) = k)"

definition wf_game :: "game_state \<Rightarrow> bool" where
  "wf_game s \<longleftrightarrow>
     ids_ok s \<and> length (flippedCards s) \<le> 2 \<and> distinct (flippedCards s)
     \<and> (\<forall>i\<in>set (flippedCards s). i < length (cards s) \<and> isFlipped (cards s ! i) \<and> \<not> isMatched (cards s ! i))
     \<and> distinct (matchedCards s)
     \<and> set (matchedCards s) = {i. i < length (cards s) \<and> isMatched (cards s ! i)}
     \<and> (\<forall>i<length (cards s). isMatched (cards s ! i) \<longrightarrow> isFlipped (cards s ! i))"

text \<open>A four-card session the witnesses below run the handlers on.\<close>

abbreviation demo_game :: game_state where
  "demo_game \<equiv> initial_state\<lparr>isPlaying := True, startTime := Some 0,
                               cards := make_cards [''a'', ''b'', ''a'', ''b'']\<rparr>"

section \<open>Properties of the session handlers\<close>

lemma ids_ok_make_cards [simp]: "ids_ok (s\<lparr>cards := make_cards vs\<rparr>)"
  by (simp add: ids_ok_def make_cards_def)

lemma length_make_cards [simp]: "length (make_cards vs) = length vs"
  by (simp add: make_cards_def)


declare set_card_def [game_simps] flipCard_def [game_simps] unflipCard_def [game_simps]
  addScore_def [game_simps]

lemma find_card_ids_ok:
  "ids_ok s \<Longrightarrow> find_idx (\<lambda>c. card_id c = i) (cards s) = (if i < length (cards s) then Some i else None)"
  unfolding ids_ok_def by (rule find_idx_key_index)

text \<open>The accepting branch of the click handler.\<close>

lemma handleCardClick_accept:
  assumes "ids_ok s" and "canFlip s" and "\<not> isPaused s" and "\<not> isGameOver s"
    and "i < length (cards s)" and "\<not> isFlipped (cards s ! i)" and "\<not> isMatched (cards s ! i)"
    and "length (flippedCards s) < 2"
  shows "handleCardClick i s =
           (let s2 = (flipCard i s)\<lparr>flippedCards := flippedCards s @ [i]\<rparr>
            in if length (flippedCards s) = 1
               then Done (s2\<lparr>moves := Suc (moves s)\<rparr>, [SetTimeout 600 CheckMatch])
               else Done (s2, []))"
  using assms by (auto simp: handleCardClick_def find_card_ids_ok game_simps Let_def)

text \<open>C3 (safety): While two cards are already face up awaiting resolution, a click on any card leaves the session state unchanged and schedules nothing (also when the click throws).\<close>

lemma handleCardClick_third_rejected:
  "2 \<le> length (flippedCards s) \<Longrightarrow> outcome_state (handleCardClick cardId s) = (s, [])"
  by (auto simp: handleCardClick_def split: option.splits)

lemma handleCardClick_matched_noop:
  "ids_ok s \<Longrightarrow> i < length (cards s) \<Longrightarrow> isMatched (cards s ! i) \<Longrightarrow> handleCardClick i s = Done (s, [])"
  by (simp add: handleCardClick_def find_card_ids_ok)

lemma handleCardClick_out_of_range:
  "ids_ok s \<Longrightarrow> length (cards s) \<le> cardId \<Longrightarrow> canFlip s \<Longrightarrow> \<not> isPaused s \<Longrightarrow> \<not> isGameOver s \<Longrightarrow>
   handleCardClick cardId s = Thrown TypeError (s, [])"
  by (simp add: handleCardClick_def find_card_ids_ok)

text \<open>C4 (functional): A click that returns either changes nothing in the move count and schedules nothing, or is the second flip of a pair: it moves the pending list from one card to two, counts exactly one move and schedules checkMatch in 600 ms.\<close>

lemma handleCardClick_moves:
  assumes "handleCardClick c s = Done (s', eff)"
  shows "(eff = [] \<and> moves s' = moves s) \<or>
         (eff = [SetTimeout 600 CheckMatch] \<and> moves s' = Suc (moves s)
          \<and> length (flippedCards s) = 1 \<and> length (flippedCards s') = 2)"
  using assms
  by (auto simp: handleCardClick_def game_simps Let_def split: option.splits if_splits)


text \<open>C5 (error): checkMatch run with fewer than two pending cards (a second or stale run for the same pair) throws a TypeError before touching the state, so a pair is never counted twice.\<close>

lemma checkMatch_stale:
  "length (flippedCards s) < 2 \<Longrightarrow> checkMatch s = Thrown TypeError (s, [])"
  by (auto simp: checkMatch_def split: list.splits)

lemma checkMatch_match:
  assumes "flippedCards s = [a, b]" and "card_value (cards s ! a) = card_value (cards s ! b)"
  shows "checkMatch s =
           (let s1 = set_card b (\<lambda>c. c\<lparr>isMatched := True\<rparr>) (set_card a (\<lambda>c. c\<lparr>isMatched := True\<rparr>) s);
                s3 = s1\<lparr>matchedCards := matchedCards s @ [a, b], score := score s + 100, flippedCards := []\<rparr>
            in Done (s3, if length (matchedCards s) + 2 = length (cards s)
                         then [SetTimeout 1000 GameComplete] else []))"
  using assms by (simp add: checkMatch_def handleMatch_def addScore_def set_card_def Let_def)

lemma checkMatch_mismatch:
  assumes "flippedCards s = [a, b]" and "card_value (cards s ! a) \<noteq> card_value (cards s ! b)"
  shows "checkMatch s = Done (s\<lparr>canFlip := False, flippedCards := []\<rparr>, [SetTimeout 1000 (UnflipPair a b)])"
  using assms by (simp add: checkMatch_def handleMismatch_def)

lemma wf_game_initial: "wf_game initial_state"
  by (simp add: wf_game_def ids_ok_def initial_state_def)

lemma wf_game_cong:
  "cards s' = cards s \<Longrightarrow> flippedCards s' = flippedCards s \<Longrightarrow> matchedCards s' = matchedCards s \<Longrightarrow>
   wf_game s' = wf_game s"
  by (simp add: wf_game_def ids_ok_def)

lemma ids_ok_set_card [simp]:
  "card_id (f (cards s ! i)) = card_id (cards s ! i) \<Longrightarrow> ids_ok (set_card i f s) = ids_ok s"
proof -
  assume f: "card_id (f (cards s ! i)) = card_id (cards s ! i)"
  have "card_id ((cards s)[i := f (cards s ! i)] ! k) = card_id (cards s ! k)" if "k < length (cards s)" for k
    using f that by (cases "k = i") simp_all
  then show ?thesis by (simp add: ids_ok_def set_card_def)
qed

lemma length_set_card [simp]: "length (cards (set_card i f s)) = length (cards s)"
  by (simp add: set_card_def)

lemma nth_set_card:
  "k < length (cards s) \<Longrightarrow> cards (set_card i f s) ! k = (if k = i then f (cards s ! i) else cards s ! k)"
  by (simp add: set_card_def nth_list_update)

lemma set_card_other [simp]:
  "flippedCards (set_card i f s) = flippedCards s" "matchedCards (set_card i f s) = matchedCards s"
  "moves (set_card i f s) = moves s" "score (set_card i f s) = score s" "canFlip (set_card i f s) = canFlip s"
  by (simp_all add: set_card_def)

lemma ids_ok_update [simp]:
  "ids_ok (s\<lparr>flippedCards := fl\<rparr>) = ids_ok s" "ids_ok (s\<lparr>matchedCards := ml\<rparr>) = ids_ok s"
  "ids_ok (s\<lparr>moves := m\<rparr>) = ids_ok s" "ids_ok (s\<lparr>canFlip := b\<rparr>) = ids_ok s"
  "ids_ok (s\<lparr>score := sc\<rparr>) = ids_ok s"
  by (simp_all add: ids_ok_def)

lemma flipCard_other [simp]:
  "flippedCards (flipCard c s) = flippedCards s" "matchedCards (flipCard c s) = matchedCards s"
  "length (cards (flipCard c s)) = length (cards s)"
  by (simp_all add: flipCard_def)

lemma wf_game_flip_push:
  assumes "wf_game s" and "c < length (cards s)" and "\<not> isFlipped (cards s ! c)"
    and "\<not> isMatched (cards s ! c)" and "length (flippedCards s) < 2"
  shows "wf_game ((flipCard c s)\<lparr>flippedCards := flippedCards s @ [c]\<rparr>)"
proof -
  let ?t = "flipCard c s"
  have nth: "k < length (cards s) \<Longrightarrow> cards ?t ! k = (if k = c then (cards s ! c)\<lparr>isFlipped := True\<rparr> else cards s ! k)" for k
    by (simp add: flipCard_def nth_set_card)
  have len: "length (cards ?t) = length (cards s)" by (simp add: flipCard_def)
  have c_new: "c \<notin> set (flippedCards s)" using assms by (auto simp: wf_game_def)
  have ids: "ids_ok ?t" using assms(1) by (simp add: flipCard_def wf_game_def)
  have matched: "isMatched (cards ?t ! k) = isMatched (cards s ! k)" if "k < length (cards s)" for k
    using that by (simp add: nth)
  show ?thesis
    using assms c_new ids unfolding wf_game_def
    by (auto simp: len nth matched split: if_splits)
qed

lemma handleCardClick_wf:
  assumes "wf_game s"
  shows "wf_game (fst (outcome_state (handleCardClick c s)))"
proof (cases "\<not> canFlip s \<or> isPaused s \<or> isGameOver s \<or> 2 \<le> length (flippedCards s)
              \<or> length (cards s) \<le> c \<or> isFlipped (cards s ! c) \<or> isMatched (cards s ! c)")
  case True
  with assms show ?thesis
    by (auto simp: handleCardClick_def wf_game_def find_card_ids_ok split: option.splits)
next
  case False
  then have ok: "canFlip s" "\<not> isPaused s" "\<not> isGameOver s" "length (flippedCards s) < 2"
      "c < length (cards s)" "\<not> isFlipped (cards s ! c)" "\<not> isMatched (cards s ! c)"
    by auto
  have wf2: "wf_game ((flipCard c s)\<lparr>flippedCards := flippedCards s @ [c]\<rparr>)"
    using assms ok by (intro wf_game_flip_push) auto
  have "wf_game (t\<lparr>moves := m\<rparr>) = wf_game t" for t :: game_state and m
    by (rule wf_game_cong) simp_all
  moreover have "ids_ok s" using assms by (simp add: wf_game_def)
  ultimately show ?thesis
    using ok wf2 by (simp add: handleCardClick_accept Let_def)
qed

section \<open>Hints\<close>

lemma find_partner_Some:
  "find_partner c ds used = Some d \<Longrightarrow> d \<in> set ds \<and> card_value c = card_value d \<and> card_id d \<notin> set used"
  by (induction c ds used rule: find_partner.induct) (auto split: if_splits)

lemma find_partner_None_empty:
  "find_partner c ds [] = None \<longleftrightarrow> card_value c \<notin> card_value ` set ds"
  by (induction ds) auto

lemma pairs_loop_sound:
  "(c, d) \<in> set (pairs_loop cs used) \<Longrightarrow>
   c \<in> set cs \<and> d \<in> set cs \<and> card_value c = card_value d \<and> card_id c \<notin> set used \<and> card_id d \<notin> set used"
proof (induction cs used rule: pairs_loop.induct)
  case (1 used)
  then show ?case by simp
next
  case (2 c0 cs used)
  then show ?case
    by (auto split: if_splits option.splits dest: find_partner_Some)
qed

lemma pair_ids_simps [simp]:
  "pair_ids [] = []"
  "pair_ids ((c, d) # ps) = card_id c # card_id d # pair_ids ps"
  by (simp_all add: pair_ids_def)

lemma pairs_loop_disjoint:
  "distinct (map card_id cs) \<Longrightarrow> distinct (pair_ids (pairs_loop cs used))
   \<and> set (pair_ids (pairs_loop cs used)) \<inter> set used = {}
   \<and> set (pair_ids (pairs_loop cs used)) \<subseteq> card_id ` set cs"
proof (induction cs used rule: pairs_loop.induct)
  case (1 used)
  then show ?case by simp
next
  case (2 c cs used)
  show ?case
  proof (cases "card_id c \<in> set used")
    case True
    with "2.IH"(1) "2.prems" show ?thesis by auto
  next
    case False
    show ?thesis
    proof (cases "find_partner c cs used")
      case None
      with False "2.IH"(2) "2.prems" show ?thesis by auto
    next
      case (Some d)
      have d: "d \<in> set cs" "card_id d \<notin> set used" using find_partner_Some [OF Some] by auto
      have cd: "card_id c \<noteq> card_id d" using d(1) "2.prems" by auto
      have IH: "distinct (pair_ids (pairs_loop cs (used @ [card_id c, card_id d])))
          \<and> set (pair_ids (pairs_loop cs (used @ [card_id c, card_id d]))) \<inter> set (used @ [card_id c, card_id d]) = {}
          \<and> set (pair_ids (pairs_loop cs (used @ [card_id c, card_id d]))) \<subseteq> card_id ` set cs"
        using "2.IH"(3) [OF False Some] "2.prems" by simp
      have "card_id c \<notin> card_id ` set cs" using "2.prems" by simp
      then show ?thesis using IH False Some d cd by auto
    qed
  qed
qed

text \<open>C20 (refinement): The linear scan with a used-marker finds no pair exactly when all card values are distinct: it is complete for the abstract contract "a hint exists iff two candidate cards share a value".\<close>

theorem findMatchingPairs_empty_iff:
  "findMatchingPairs cs = [] \<longleftrightarrow> distinct (map card_value cs)"
proof (induction cs)
  case Nil
  then show ?case by (simp add: findMatchingPairs_def)
next
  case (Cons c cs)
  have "pairs_loop (c # cs) [] = [] \<longleftrightarrow> find_partner c cs [] = None \<and> pairs_loop cs [] = []"
    by (simp split: option.split)
  with Cons show ?case by (simp add: findMatchingPairs_def find_partner_None_empty)
qed

lemma set_pair_ids: "(c, d) \<in> set ps \<Longrightarrow> card_id c \<in> set (pair_ids ps) \<and> card_id d \<in> set (pair_ids ps)"
  by (induction ps) auto

text \<open>C24 (safety): On cards with distinct ids every pair the scan reports consists of two cards of the list with equal values, and no card appears in two reported pairs (nor twice in one).\<close>

theorem findMatchingPairs_sound:
  assumes "distinct (map card_id cs)"
  shows "(\<forall>(c, d)\<in>set (findMatchingPairs cs). c \<in> set cs \<and> d \<in> set cs \<and> card_value c = card_value d)
         \<and> distinct (pair_ids (findMatchingPairs cs))"
  using pairs_loop_sound [of _ _ cs "[]"] pairs_loop_disjoint [OF assms, of "[]"]
  by (auto simp: findMatchingPairs_def)

lemma showHint_Done:
  assumes "showHint r s = Done (s', p)"
  shows "p = None \<and> s' = s
    \<or> (p \<noteq> None \<and> the p \<in> set (findMatchingPairs (filter (\<lambda>c. \<not> isMatched c \<and> \<not> isFlipped c) (cards s)))
          \<and> s' = s\<lparr>hintCount := hintCount s - 1\<rparr> \<and> 0 < hintCount s)"
proof -
  define ps where "ps = findMatchingPairs (filter (\<lambda>c. \<not> isMatched c \<and> \<not> isFlipped c) (cards s))"
  have "(if hintCount s \<le> 0 \<or> isPaused s \<or> isGameOver s then Done (s, None)
         else if length (filter (\<lambda>c. \<not> isMatched c \<and> \<not> isFlipped c) (cards s)) < 2 then Done (s, None)
         else if 0 < length ps
              then (if draw_index r (length ps) < length ps
                    then Done (s\<lparr>hintCount := hintCount s - 1\<rparr>, Some (ps ! draw_index r (length ps)))
                    else Thrown TypeError (s, None))
              else Done (s, None)) = Done (s', p)"
    using assms by (simp only: showHint_def Let_def ps_def)
  then have "p = None \<and> s' = s \<or> (p \<noteq> None \<and> the p \<in> set ps
          \<and> s' = s\<lparr>hintCount := hintCount s - 1\<rparr> \<and> 0 < hintCount s)"
    by (auto split: if_splits)
  then show ?thesis unfolding ps_def .
qed

text \<open>C31 (functional): A hint request that returns changes nothing but the hint counter: either nothing is revealed and the counter is kept, or a pair of equal-valued cards of the board, neither matched nor face up, is revealed and one hint (of a positive count) is used.\<close>

theorem showHint_effect:
  assumes "showHint r s = Done (s', p)"
  shows "s' = s\<lparr>hintCount := hintCount s'\<rparr>
         \<and> (p = None \<and> hintCount s' = hintCount s
            \<or> (\<exists>c d. p = Some (c, d) \<and> 0 < hintCount s \<and> hintCount s' = hintCount s - 1
                \<and> card_value c = card_value d \<and> c \<in> set (cards s) \<and> d \<in> set (cards s)
                \<and> \<not> isMatched c \<and> \<not> isFlipped c \<and> \<not> isMatched d \<and> \<not> isFlipped d))"
proof -
  let ?u = "filter (\<lambda>c. \<not> isMatched c \<and> \<not> isFlipped c) (cards s)"
  have mem: "\<And>c d. (c, d) \<in> set (findMatchingPairs ?u) \<Longrightarrow>
      card_value c = card_value d \<and> c \<in> set ?u \<and> d \<in> set ?u"
    using pairs_loop_sound by (fastforce simp: findMatchingPairs_def)
  from showHint_Done [OF assms] show ?thesis
  proof
    assume "p = None \<and> s' = s"
    then show ?thesis by simp
  next
    assume h: "p \<noteq> None \<and> the p \<in> set (findMatchingPairs ?u)
        \<and> s' = s\<lparr>hintCount := hintCount s - 1\<rparr> \<and> 0 < hintCount s"
    then obtain c d where "p = Some (c, d)" by auto
    with h mem [of c d] show ?thesis by auto
  qed
qed

text \<open>C25 (liveness): When hints remain, the session is neither paused nor over, the draw is in [0, 1) and two candidate cards share a value, the hint request reveals a pair and uses one hint.\<close>

theorem showHint_available:
  assumes "0 < hintCount s" and "\<not> isPaused s" and "\<not> isGameOver s"
    and "0 \<le> r" and "r < 1"
    and "\<not> distinct (map card_value (filter (\<lambda>c. \<not> isMatched c \<and> \<not> isFlipped c) (cards s)))"
  shows "\<exists>c d. showHint r s = Done (s\<lparr>hintCount := hintCount s - 1\<rparr>, Some (c, d))"
proof -
  let ?u = "filter (\<lambda>c. \<not> isMatched c \<and> \<not> isFlipped c) (cards s)"
  have two: "\<not> length ?u < 2"
  proof
    assume "length ?u < 2"
    then have "length (map card_value ?u) \<le> 1" by simp
    then have "distinct (map card_value ?u)" by (cases "map card_value ?u" rule: remdups_adj.cases) auto
    with assms(6) show False by simp
  qed
  have ne: "findMatchingPairs ?u \<noteq> []" using assms(6) by (simp add: findMatchingPairs_empty_iff)
  then have k: "draw_index r (length (findMatchingPairs ?u)) < length (findMatchingPairs ?u)"
    using assms(4,5) by (simp add: draw_index_less)
  show ?thesis
    using assms(1-3) two ne k by (simp add: showHint_def Let_def split: prod.split)
qed


section \<open>Starting, completing and timing a session\<close>

lemma nth_make_cards:
  "i < length vs \<Longrightarrow> make_cards vs ! i = \<lparr>card_id = i, card_value = vs ! i, isFlipped = False, isMatched = False\<rparr>"
  by (simp add: make_cards_def)

lemma map_value_make_cards [simp]: "map card_value (make_cards vs) = vs"
  by (rule nth_equalityI) (simp_all add: nth_make_cards)

lemma wf_game_fresh_board:
  assumes "cards s = make_cards vs" and "flippedCards s = []" and "matchedCards s = []"
  shows "wf_game s"
  using assms by (simp add: wf_game_def ids_ok_def nth_make_cards)

theorem startNewGame_fresh:
  assumes "GAME_LEVELS lvl = Some cfg" and "random_ok rnd"
  shows "\<exists>d. generateRandomCards rnd lvl ''animals'' = Inr d
           \<and> startNewGame lvl name now rnd s =
               Done (initial_state\<lparr>level := lvl, playerName := (if name = [] then anonymous else name),
                                   cards := make_cards d, isPlaying := True, startTime := Some now\<rparr>,
                     [StopTimer, StartTimer])
           \<and> wf_game (initial_state\<lparr>level := lvl, playerName := (if name = [] then anonymous else name),
                                   cards := make_cards d, isPlaying := True, startTime := Some now\<rparr>)"
proof -
  obtain syms where syms: "CARD_DATA ''animals'' = Some syms" by (simp add: CARD_DATA_def)
  obtain d where d: "generateRandomCards rnd lvl ''animals'' = Inr d"
    using generateRandomCards_mset [OF assms(1) syms assms(2)] by blast
  have "wf_game (initial_state\<lparr>level := lvl, playerName := (if name = [] then anonymous else name),
                                   cards := make_cards d, isPlaying := True, startTime := Some now\<rparr>)"
    by (rule wf_game_fresh_board [of _ d]) (simp_all add: initial_state_def)
  with d assms(1) show ?thesis by (simp add: startNewGame_def resetGameState_def)
qed

theorem handleGameComplete_saves:
  assumes "GAME_LEVELS (level s) \<noteq> None" and "0 < moves s"
  shows "\<exists>sc. calculateScore (timeSpent s) (moves s) (level s) = Inr sc
           \<and> handleGameComplete s =
               Done (s\<lparr>isGameOver := True, isPlaying := False, score := sc\<rparr>,
                     [StopTimer, SaveScore \<lparr>entry_player = playerName s, entry_score = sc,
                        entry_level = level s, entry_flips = moves s, entry_time = timeSpent s\<rparr>])"
proof -
  obtain sc where sc: "calculateScore (timeSpent s) (moves s) (level s) = Inr sc"
    using assms calculateScore_Inr_iff by blast
  then show ?thesis by (simp add: handleGameComplete_def)
qed

lemma wf_game_matchD:
  assumes "wf_game s" and "flippedCards s = [a, b]"
  shows "a \<noteq> b" "a < length (cards s)" "b < length (cards s)"
    "\<not> isMatched (cards s ! a)" "\<not> isMatched (cards s ! b)"
    "isFlipped (cards s ! a)" "isFlipped (cards s ! b)"
  using assms by (auto simp: wf_game_def)

lemma checkMatch_wf:
  assumes "wf_game s"
  shows "wf_game (fst (outcome_state (checkMatch s)))"
proof (cases "\<exists>a b. flippedCards s = [a, b]")
  case False
  then have "length (flippedCards s) < 2" using assms
    by (auto simp: wf_game_def le_Suc_eq length_Suc_conv numeral_2_eq_2)
  with assms show ?thesis by (simp add: checkMatch_stale)
next
  case True
  then obtain a b where ab: "flippedCards s = [a, b]" by blast
  note d = wf_game_matchD [OF assms ab]
  show ?thesis
  proof (cases "card_value (cards s ! a) = card_value (cards s ! b)")
    case False
    with assms ab show ?thesis
      by (simp add: checkMatch_mismatch wf_game_def ids_ok_def)
  next
    case True
    let ?t = "set_card b (\<lambda>c. c\<lparr>isMatched := True\<rparr>) (set_card a (\<lambda>c. c\<lparr>isMatched := True\<rparr>) s)"
    have nth: "k < length (cards s) \<Longrightarrow> cards ?t ! k =
        (if k = a \<or> k = b then (cards s ! k)\<lparr>isMatched := True\<rparr> else cards s ! k)" for k
      using d(1) by (auto simp: nth_set_card)
    have ids: "ids_ok ?t" using assms by (simp add: wf_game_def)
    have "set (matchedCards s) = {i. i < length (cards s) \<and> isMatched (cards s ! i)}"
      using assms by (simp add: wf_game_def)
    then have "a \<notin> set (matchedCards s)" "b \<notin> set (matchedCards s)" using d by auto
    with assms ab d ids True show ?thesis
      unfolding checkMatch_match [OF ab True] Let_def wf_game_def
      by (auto simp: nth split: if_splits)
  qed
qed


section \<open>Witnesses\<close>

theorem handleCardClick_third_rejected_witness: "2 \<le> length (flippedCards (demo_game\<lparr>flippedCards := [0, 1]\<rparr>))
   \<and> outcome_state (handleCardClick 3 (demo_game\<lparr>flippedCards := [0, 1]\<rparr>)) = (demo_game\<lparr>flippedCards := [0, 1]\<rparr>, [])"
  using handleCardClick_third_rejected [of "demo_game\<lparr>flippedCards := [0, 1]\<rparr>" 3] by simp

theorem handleCardClick_out_of_range_witness: "ids_ok demo_game \<and> length (cards demo_game) \<le> 4 \<and> canFlip demo_game \<and> \<not> isPaused demo_game
   \<and> \<not> isGameOver demo_game \<and> handleCardClick 4 demo_game = Thrown TypeError (demo_game, [])"
proof -
  have ids: "ids_ok demo_game" by (rule ids_ok_make_cards)
  have "handleCardClick 4 demo_game = Thrown TypeError (demo_game, [])"
    by (rule handleCardClick_out_of_range [OF ids]) (simp_all add: initial_state_def)
  with ids show ?thesis by (simp add: initial_state_def)
qed

theorem handleCardClick_moves_witness: "\<exists>s' eff. handleCardClick 2 (demo_game\<lparr>flippedCards := [0]\<rparr>) = Done (s', eff)
   \<and> eff = [SetTimeout 600 CheckMatch] \<and> moves s' = Suc (moves demo_game)"
proof -
  obtain s' eff where r: "handleCardClick 2 (demo_game\<lparr>flippedCards := [0]\<rparr>) = Done (s', eff)"
    by (simp add: handleCardClick_def make_cards_def initial_state_def game_simps)
  then have "eff \<noteq> []"
    by (auto simp add: handleCardClick_def make_cards_def initial_state_def game_simps)
  with handleCardClick_moves [OF r] r show ?thesis by (auto simp: initial_state_def)
qed

theorem checkMatch_stale_witness: "length (flippedCards demo_game) < 2 \<and> checkMatch demo_game = Thrown TypeError (demo_game, [])"
  using checkMatch_stale [of demo_game] by (simp add: initial_state_def)

theorem findMatchingPairs_empty_iff_witness:
  "findMatchingPairs (make_cards [''a'', ''b'', ''c'']) = [] \<and> \<not> distinct (map card_value (make_cards [''a'', ''b'', ''a'']))
   \<and> findMatchingPairs (make_cards [''a'', ''b'', ''a'']) \<noteq> []"
  using findMatchingPairs_empty_iff [of "make_cards [''a'', ''b'', ''c'']"]
    findMatchingPairs_empty_iff [of "make_cards [''a'', ''b'', ''a'']"] by simp

theorem findMatchingPairs_sound_witness:
  "distinct (map card_id (make_cards [''a'', ''b'', ''a'', ''b'']))
   \<and> findMatchingPairs (make_cards [''a'', ''b'', ''a'', ''b'']) =
       [(make_cards [''a'', ''b'', ''a'', ''b''] ! 0, make_cards [''a'', ''b'', ''a'', ''b''] ! 2),
        (make_cards [''a'', ''b'', ''a'', ''b''] ! 1, make_cards [''a'', ''b'', ''a'', ''b''] ! 3)]
   \<and> card_value (make_cards [''a'', ''b'', ''a'', ''b''] ! 1) = card_value (make_cards [''a'', ''b'', ''a'', ''b''] ! 3)
   \<and> distinct (pair_ids (findMatchingPairs (make_cards [''a'', ''b'', ''a'', ''b''])))"
proof -
  have d: "distinct (map card_id (make_cards [''a'', ''b'', ''a'', ''b'']))" by (simp add: make_cards_def)
  have f: "findMatchingPairs (make_cards [''a'', ''b'', ''a'', ''b'']) =
       [(make_cards [''a'', ''b'', ''a'', ''b''] ! 0, make_cards [''a'', ''b'', ''a'', ''b''] ! 2),
        (make_cards [''a'', ''b'', ''a'', ''b''] ! 1, make_cards [''a'', ''b'', ''a'', ''b''] ! 3)]"
    by (simp add: findMatchingPairs_def make_cards_def)
  from findMatchingPairs_sound [OF d] d f show ?thesis by simp
qed

theorem showHint_effect_witness:
  "showHint 0 demo_game = Done (demo_game\<lparr>hintCount := 2\<rparr>, Some (cards demo_game ! 0, cards demo_game ! 2))
   \<and> 0 < hintCount demo_game \<and> card_value (cards demo_game ! 0) = card_value (cards demo_game ! 2)"
proof -
  have e: "showHint 0 demo_game = Done (demo_game\<lparr>hintCount := 2\<rparr>, Some (cards demo_game ! 0, cards demo_game ! 2))"
    by (simp add: showHint_def findMatchingPairs_def make_cards_def initial_state_def draw_index_def)
  from showHint_effect [OF e] e show ?thesis by simp
qed

theorem showHint_available_witness:
  "0 < hintCount demo_game \<and> \<not> isPaused demo_game \<and> \<not> isGameOver demo_game \<and> 0 \<le> (0::rat) \<and> (0::rat) < 1
   \<and> \<not> distinct (map card_value (filter (\<lambda>c. \<not> isMatched c \<and> \<not> isFlipped c) (cards demo_game)))
   \<and> (\<exists>c d. showHint 0 demo_game = Done (demo_game\<lparr>hintCount := hintCount demo_game - 1\<rparr>, Some (c, d)))"
proof -
  have h: "0 < hintCount demo_game" "\<not> isPaused demo_game" "\<not> isGameOver demo_game"
    "\<not> distinct (map card_value (filter (\<lambda>c. \<not> isMatched c \<and> \<not> isFlipped c) (cards demo_game)))"
    by (simp_all add: initial_state_def make_cards_def)
  from showHint_available [OF h(1-3) _ _ h(4), of 0] h show ?thesis by simp
qed

theorem startNewGame_fresh_witness:
  "GAME_LEVELS 1 = Some (the (GAME_LEVELS 1)) \<and> random_ok (\<lambda>_. 0)
   \<and> (\<exists>d. generateRandomCards (\<lambda>_. 0) 1 ''animals'' = Inr d
        \<and> startNewGame 1 ''kim'' 0 (\<lambda>_. 0) initial_state =
            Done (initial_state\<lparr>level := 1, playerName := ''kim'', cards := make_cards d, isPlaying := True,
                                startTime := Some 0\<rparr>, [StopTimer, StartTimer])
        \<and> wf_game (initial_state\<lparr>level := 1, playerName := ''kim'', cards := make_cards d, isPlaying := True,
                                startTime := Some 0\<rparr>))"
proof -
  have g: "GAME_LEVELS 1 = Some (the (GAME_LEVELS 1))" by (simp add: GAME_LEVELS_def)
  have r: "random_ok (\<lambda>_. 0)" by (simp add: random_ok_def)
  from startNewGame_fresh [OF g r, of "''kim''" 0 initial_state] g r show ?thesis by simp
qed

theorem handleGameComplete_saves_witness:
  "GAME_LEVELS (level (demo_game\<lparr>moves := 12, timeSpent := 60\<rparr>)) \<noteq> None
   \<and> 0 < moves (demo_game\<lparr>moves := 12, timeSpent := 60\<rparr>)
   \<and> handleGameComplete (demo_game\<lparr>moves := 12, timeSpent := 60\<rparr>) =
       Done (demo_game\<lparr>moves := 12, timeSpent := 60, isGameOver := True, isPlaying := False, score := 1000\<rparr>,
             [StopTimer, SaveScore \<lparr>entry_player = [], entry_score = 1000, entry_level = 1, entry_flips = 12,
                                    entry_time = 60\<rparr>])"
proof -
  have h: "GAME_LEVELS (level (demo_game\<lparr>moves := 12, timeSpent := 60\<rparr>)) \<noteq> None"
      "0 < moves (demo_game\<lparr>moves := 12, timeSpent := 60\<rparr>)"
    by (simp_all add: initial_state_def GAME_LEVELS_def)
  have c: "calculateScore 60 12 1 = Inr 1000"
    by (simp add: calculateScore_def GAME_LEVELS_def)
  from handleGameComplete_saves [OF h] h c show ?thesis by (simp add: initial_state_def)
qed

end
