(* ===== verification/Runtime.thy ===== *)
theory Runtime
  imports Game "HOL-Library.While_Combinator"
begin

text \<open>
  The browser event loop around one \<open>CardGame\<close> instance (\<open>src/scripts/game.js\<close>,
  wired to the buttons and keys by \<open>src/scripts/main.js\<close>). A \<open>world\<close> holds the
  session state, the clock, the pending \<open>setTimeout\<close> callbacks, whether the
  \<open>setInterval\<close> game clock runs, and the score records handed to
  \<open>DatabaseAPI.saveGameScore\<close>. Each \<open>event\<close> runs one handler to completion
  (JavaScript is single-threaded); the effects a handler returns are applied in order.

  A pending callback remembers the session that scheduled it: \<open>session\<close> counts the
  boards created by \<open>startNewGame\<close>. The closures of \<open>handleCardClick\<close> and
  \<open>handleMatch\<close> call \<open>this.checkMatch()\<close> and \<open>this.handleGameComplete()\<close>, so they
  act on whatever session is current when they fire; the closure of
  \<open>handleMismatch\<close> captured the two card objects of its own board and only its
  \<open>canFlip\<close> unlock reaches a later session. Timers fire in order of due time, ties in
  order of scheduling (the HTML timer ordering); a timer may fire late, never early.
\<close>

type_synonym timer = "ms \<times> nat \<times> timeout_cb" \<comment> \<open>due time, scheduling session, callback\<close>

record world =
  gs :: game_state
  session :: nat
  now :: ms
  pending :: "timer list"
  ticking :: bool
  submitted :: "score_entry list"

definition world0 :: world where
  "world0 = \<lparr>gs = initial_state, session = 0, now = 0, pending = [], ticking = False, submitted = []\<rparr>"

text \<open>Performing one effect a handler returned.\<close>

fun apply_effect :: "world \<Rightarrow> effect \<Rightarrow> world" where
  "apply_effect w (SetTimeout d cb) = w\<lparr>pending := pending w @ [(now w + d, session w, cb)]\<rparr>"
| "apply_effect w StartTimer = w\<lparr>ticking := True\<rparr>"
| "apply_effect w StopTimer = w\<lparr>ticking := False\<rparr>"
| "apply_effect w (SaveScore e) = w\<lparr>submitted := submitted w @ [e]\<rparr>"

text \<open>
  A handler's outcome: the state it leaves (also when it throws: the exception ends
  the event, it does not undo the mutations) and its effects.
\<close>

definition run_handler :: "game_result \<Rightarrow> world \<Rightarrow> world" where
  "run_handler r w = (case outcome_state r of (s, eff) \<Rightarrow> foldl apply_effect (w\<lparr>gs := s\<rparr>) eff)"

text \<open>The position of the timer that fires next: the first one of least due time.\<close>

fun earliest :: "timer list \<Rightarrow> nat" where
  "earliest [] = 0"
| "earliest (t # ts) =
     (if ts = [] then 0 else if fst (ts ! earliest ts) < fst t then Suc (earliest ts) else 0)"

definition remove_nth :: "nat \<Rightarrow> 'a list \<Rightarrow> 'a list" where
  "remove_nth k xs = take k xs @ drop (Suc k) xs"

definition run_timer :: "timer \<Rightarrow> world \<Rightarrow> world" where
  "run_timer tm w =
     (case tm of (due, t, cb) \<Rightarrow>
        (let w1 = w\<lparr>now := max (now w) due\<rparr>
         in case cb of
              CheckMatch \<Rightarrow> run_handler (checkMatch (gs w1)) w1
            | UnflipPair a b \<Rightarrow> w1\<lparr>gs := unflip_callback (t = session w1) a b (gs w1)\<rparr>
            | GameComplete \<Rightarrow> run_handler (handleGameComplete (gs w1)) w1))"

text \<open>
  The events: the start button (\<open>CardGameApp.startGame\<close> calling
  \<open>startNewGame(currentLevel, currentPlayerName)\<close>, with the draws of its shuffle),
  the reset button with the answer to its confirmation dialog, a click on a card of
  the current board, the pause button, the hint button with its random draw, a tick
  of the game clock, the next pending timeout, and the passing of time.
\<close>

datatype event =
    StartSession nat string "nat \<Rightarrow> rat"
  | ResetSession bool "nat \<Rightarrow> rat"
  | Click nat
  | PauseToggle
  | Hint rat
  | Tick
  | Fire
  | Wait ms

definition new_session :: "world \<Rightarrow> world" where
  "new_session w = w\<lparr>session := Suc (session w)\<rparr>"

fun step :: "world \<Rightarrow> event \<Rightarrow> world" where
  "step w (StartSession lvl name rnd) = run_handler (startNewGame lvl name (now w) rnd (gs w)) (new_session w)"
| "step w (ResetSession confirm rnd) =
     (if confirm then run_handler (resetGame True (now w) rnd (gs w)) (new_session w) else w)"
| "step w (Click i) = run_handler (handleCardClick i (gs w)) w"
| "step w PauseToggle = w\<lparr>gs := togglePause (gs w)\<rparr>"
| "step w (Hint r) = w\<lparr>gs := fst (outcome_state (showHint r (gs w)))\<rparr>"
| "step w Tick = (if ticking w then w\<lparr>gs := clock_tick (now w) (gs w)\<rparr> else w)"
| "step w Fire =
     (if pending w = [] then w
      else (let k = earliest (pending w)
            in run_timer (pending w ! k) (w\<lparr>pending := remove_nth k (pending w)\<rparr>)))"
| "step w (Wait d) = w\<lparr>now := now w + d\<rparr>"

inductive reachable :: "world \<Rightarrow> bool" where
  init: "reachable world0"
| step: "reachable w \<Longrightarrow> reachable (step w ev)"

definition run :: "world \<Rightarrow> event list \<Rightarrow> world" where
  "run w evs = foldl step w evs"

section \<open>The invariant of the event loop\<close>

text \<open>
  The timers an effect list schedules at time \<open>n\<close> in session \<open>t\<close>; the card positions
  named by the unflip callbacks of session \<open>t\<close> still pending (\<open>unflips_of\<close>). The world
  invariant: the session is well-formed, no timer comes from a later session, and the
  cards awaiting an unflip of the current session are distinct, in range, face up,
  unmatched and not pending in \<open>flippedCards\<close>.
\<close>

fun timers_of :: "ms \<Rightarrow> nat \<Rightarrow> effect list \<Rightarrow> timer list" where
  "timers_of n t [] = []"
| "timers_of n t (SetTimeout d cb # es) = (n + d, t, cb) # timers_of n t es"
| "timers_of n t (_ # es) = timers_of n t es"

definition unflips_of :: "nat \<Rightarrow> timer list \<Rightarrow> nat list" where
  "unflips_of t ts = concat (map (\<lambda>(due, t', cb). case cb of UnflipPair a b \<Rightarrow> if t' = t then [a, b] else [] | _ \<Rightarrow> []) ts)"

definition live_ok :: "game_state \<Rightarrow> nat \<Rightarrow> timer list \<Rightarrow> bool" where
  "live_ok s t ts \<longleftrightarrow> distinct (unflips_of t ts)
     \<and> (\<forall>i\<in>set (unflips_of t ts). i < length (cards s) \<and> isFlipped (cards s ! i)
          \<and> \<not> isMatched (cards s ! i) \<and> i \<notin> set (flippedCards s))"

definition inv_world :: "world \<Rightarrow> bool" where
  "inv_world w \<longleftrightarrow> wf_game (gs w) \<and> (\<forall>tm\<in>set (pending w). fst (snd tm) \<le> session w)
     \<and> live_ok (gs w) (session w) (pending w)"


text \<open>The events that replace the session (a start, or a confirmed reset).\<close>

fun is_start :: "event \<Rightarrow> bool" where
  "is_start (StartSession lvl name rnd) = True"
| "is_start (ResetSession confirm rnd) = confirm"
| "is_start _ = False"



section \<open>Running the timer queue to the end\<close>

text \<open>
  With no user input the browser runs the pending timeouts one after another until none
  is left (\<open>drain\<close>, a \<open>while_option\<close> over \<open>Fire\<close> events). A timeout may schedule
  another: \<open>checkMatch\<close> schedules the unflip or the completion. The weight of the
  queue (two for a pending \<open>checkMatch\<close>, one for the other callbacks) decreases with
  every timeout run, which bounds the loop.
\<close>

definition drain :: "world \<Rightarrow> world option" where
  "drain w = while_option (\<lambda>w. pending w \<noteq> []) (\<lambda>w. step w Fire) w"

primrec cb_weight :: "timeout_cb \<Rightarrow> nat" where
  "cb_weight CheckMatch = 2"
| "cb_weight (UnflipPair a b) = 1"
| "cb_weight GameComplete = 1"

definition timers_weight :: "timer list \<Rightarrow> nat" where
  "timers_weight ts = sum_list (map (\<lambda>tm. cb_weight (snd (snd tm))) ts)"

section \<open>Properties of the event loop\<close>

lemma foldl_apply_effect:
  "gs (foldl apply_effect w eff) = gs w \<and> session (foldl apply_effect w eff) = session w
   \<and> now (foldl apply_effect w eff) = now w
   \<and> pending (foldl apply_effect w eff) = pending w @ timers_of (now w) (session w) eff"
proof (induction eff arbitrary: w)
  case Nil
  then show ?case by simp
next
  case (Cons e eff)
  then show ?case by (cases e) simp_all
qed

lemma run_handler_simps:
  "gs (run_handler r w) = fst (outcome_state r)" "session (run_handler r w) = session w"
  "now (run_handler r w) = now w"
  "pending (run_handler r w) = pending w @ timers_of (now w) (session w) (snd (outcome_state r))"
  by (simp_all add: run_handler_def foldl_apply_effect split: prod.split)

lemma unflips_of_append [simp]: "unflips_of t (xs @ ys) = unflips_of t xs @ unflips_of t ys"
  by (simp add: unflips_of_def)

lemma unflips_of_simps [simp]:
  "unflips_of t [] = []"
  "unflips_of t ((d, t', UnflipPair a b) # ts) = (if t' = t then [a, b] else []) @ unflips_of t ts"
  "unflips_of t ((d, t', CheckMatch) # ts) = unflips_of t ts"
  "unflips_of t ((d, t', GameComplete) # ts) = unflips_of t ts"
  by (simp_all add: unflips_of_def)

lemma unflips_of_stale: "\<forall>tm\<in>set ts. fst (snd tm) < t \<Longrightarrow> unflips_of t ts = []"
  by (induction ts) (auto simp: unflips_of_def split: timeout_cb.splits)

lemma inv_world_cong:
  assumes "cards (gs w') = cards (gs w)" "flippedCards (gs w') = flippedCards (gs w)"
    "matchedCards (gs w') = matchedCards (gs w)" "pending w' = pending w" "session w' = session w"
  shows "inv_world w' = inv_world w"
  using assms wf_game_cong [of "gs w'" "gs w"] by (simp add: inv_world_def live_ok_def)

lemma inv_world0: "inv_world world0"
  by (simp add: inv_world_def live_ok_def world0_def wf_game_initial)

lemma showHint_Thrown: "showHint r s = Thrown e x \<Longrightarrow> x = (s, None)"
  by (simp add: showHint_def Let_def split: if_split_asm)

lemma showHint_board:
  "cards (fst (outcome_state (showHint r s))) = cards s
   \<and> flippedCards (fst (outcome_state (showHint r s))) = flippedCards s
   \<and> matchedCards (fst (outcome_state (showHint r s))) = matchedCards s"
proof (cases "showHint r s")
  case (Done x)
  obtain s' p where "x = (s', p)" by (cases x)
  with Done showHint_Done [of r s s' p] show ?thesis by auto
next
  case (Thrown e x)
  then show ?thesis using showHint_Thrown [OF Thrown] by simp
qed

lemma startNewGame_board:
  "wf_game (fst (outcome_state (startNewGame lvl name t rnd s)))
   \<and> timers_of n k (snd (outcome_state (startNewGame lvl name t rnd s))) = []"
proof -
  have wf0: "wf_game (initial_state\<lparr>level := lvl, playerName := nm\<rparr>)" for nm
    by (simp add: wf_game_def ids_ok_def initial_state_def)
  have wf1: "wf_game (initial_state\<lparr>level := lvl, playerName := nm, cards := make_cards vs, isPlaying := True,
                        startTime := Some t\<rparr>)" for nm vs
    by (rule wf_game_fresh_board [of _ vs]) (simp_all add: initial_state_def)
  show ?thesis
    using wf0 wf1 by (simp add: startNewGame_def resetGameState_def Let_def split: option.split sum.split)
qed

lemma handleGameComplete_board:
  "cards (fst (outcome_state (handleGameComplete s))) = cards s
   \<and> flippedCards (fst (outcome_state (handleGameComplete s))) = flippedCards s
   \<and> matchedCards (fst (outcome_state (handleGameComplete s))) = matchedCards s
   \<and> timers_of n k (snd (outcome_state (handleGameComplete s))) = []"
  by (simp add: handleGameComplete_def Let_def split: sum.split)

lemma inv_new_session:
  assumes "inv_world w" and "wf_game (fst (outcome_state r))"
    and "timers_of (now w) (Suc (session w)) (snd (outcome_state r)) = []"
  shows "inv_world (run_handler r (new_session w))"
proof -
  have "\<forall>tm\<in>set (pending w). fst (snd tm) < Suc (session w)"
    using assms(1) by (auto simp: inv_world_def less_Suc_eq_le)
  then have "unflips_of (Suc (session w)) (pending w) = []" by (rule unflips_of_stale)
  with assms show ?thesis
    by (auto simp: inv_world_def live_ok_def run_handler_simps new_session_def le_Suc_eq)
qed

lemma timers_of_session: "tm \<in> set (timers_of n t es) \<Longrightarrow> fst (snd tm) = t"
  by (induction n t es rule: timers_of.induct) auto

lemma inv_world_board:
  assumes inv: "inv_world w" and wf: "wf_game (gs w')" and ses: "session w' = session w"
    and pend: "pending w' = pending w @ new" and new: "\<forall>tm\<in>set new. fst (snd tm) = session w"
    and nou: "unflips_of (session w) new = []"
    and len: "length (cards (gs w')) = length (cards (gs w))"
    and keep: "\<forall>j\<in>set (unflips_of (session w) (pending w)).
                 cards (gs w') ! j = cards (gs w) ! j \<and> j \<notin> set (flippedCards (gs w'))"
  shows "inv_world w'"
  using assms by (auto simp: inv_world_def live_ok_def)

lemma handleCardClick_cases:
  assumes "wf_game s"
  shows "outcome_state (handleCardClick i s) = (s, [])
         \<or> (i < length (cards s) \<and> \<not> isFlipped (cards s ! i) \<and> \<not> isMatched (cards s ! i)
            \<and> cards (fst (outcome_state (handleCardClick i s))) = cards (flipCard i s)
            \<and> flippedCards (fst (outcome_state (handleCardClick i s))) = flippedCards s @ [i]
            \<and> (snd (outcome_state (handleCardClick i s)) = [] \<or>
               snd (outcome_state (handleCardClick i s)) = [SetTimeout 600 CheckMatch]))"
proof (cases "\<not> canFlip s \<or> isPaused s \<or> isGameOver s \<or> 2 \<le> length (flippedCards s)
              \<or> length (cards s) \<le> i \<or> isFlipped (cards s ! i) \<or> isMatched (cards s ! i)")
  case True
  have "ids_ok s" using assms by (simp add: wf_game_def)
  with True show ?thesis
    by (auto simp: handleCardClick_def find_card_ids_ok)
next
  case False
  have "ids_ok s" using assms by (simp add: wf_game_def)
  with False show ?thesis
    by (simp add: handleCardClick_accept Let_def)
qed

lemma inv_click:
  assumes "inv_world w"
  shows "inv_world (step w (Click i))"
proof -
  have wf: "wf_game (gs w)" using assms by (simp add: inv_world_def)
  have wf': "wf_game (fst (outcome_state (handleCardClick i (gs w))))"
    using handleCardClick_wf [OF wf] .
  consider (noop) "outcome_state (handleCardClick i (gs w)) = (gs w, [])"
    | (acc) "i < length (cards (gs w))" "\<not> isFlipped (cards (gs w) ! i)"
        "cards (fst (outcome_state (handleCardClick i (gs w)))) = cards (flipCard i (gs w))"
        "flippedCards (fst (outcome_state (handleCardClick i (gs w)))) = flippedCards (gs w) @ [i]"
        "snd (outcome_state (handleCardClick i (gs w))) = [] \<or>
         snd (outcome_state (handleCardClick i (gs w))) = [SetTimeout 600 CheckMatch]"
    using handleCardClick_cases [OF wf, of i] by blast
  then show ?thesis
  proof cases
    case noop
    have "inv_world (step w (Click i)) = inv_world w"
      by (rule inv_world_cong) (simp_all add: run_handler_simps noop)
    with assms show ?thesis by simp
  next
    case acc
    let ?w' = "step w (Click i)"
    have live: "\<forall>j\<in>set (unflips_of (session w) (pending w)). isFlipped (cards (gs w) ! j)
        \<and> j \<notin> set (flippedCards (gs w))"
      using assms by (simp add: inv_world_def live_ok_def)
    have keep: "\<forall>j\<in>set (unflips_of (session w) (pending w)).
        cards (gs ?w') ! j = cards (gs w) ! j \<and> j \<notin> set (flippedCards (gs ?w'))"
    proof
      fix j assume j: "j \<in> set (unflips_of (session w) (pending w))"
      then have "j \<noteq> i" using live acc(2) by auto
      then show "cards (gs ?w') ! j = cards (gs w) ! j \<and> j \<notin> set (flippedCards (gs ?w'))"
        using j live acc by (simp add: run_handler_simps game_simps)
    qed
    let ?new = "timers_of (now w) (session w) (snd (outcome_state (handleCardClick i (gs w))))"
    have nou: "unflips_of (session w) ?new = []" using acc(5) by auto
    show ?thesis
    proof (rule inv_world_board [OF assms _ _ _ _ nou _ keep])
      show "wf_game (gs ?w')" using wf' by (simp add: run_handler_simps)
      show "session ?w' = session w" by (simp add: run_handler_simps)
      show "pending ?w' = pending w @ ?new" by (simp add: run_handler_simps)
      show "\<forall>tm\<in>set ?new. fst (snd tm) = session w" by (blast intro: timers_of_session)
      show "length (cards (gs ?w')) = length (cards (gs w))"
        using acc(3) by (simp add: run_handler_simps flipCard_def)
    qed
  qed
qed

lemma earliest_less: "ts \<noteq> [] \<Longrightarrow> earliest ts < length ts"
  by (induction ts rule: earliest.induct) auto

lemma unflips_of_pick:
  assumes "k < length P"
  shows "unflips_of t P = unflips_of t (take k P) @ unflips_of t [P ! k] @ unflips_of t (drop (Suc k) P)"
proof -
  have "P = take k P @ [P ! k] @ drop (Suc k) P" using assms by (simp add: id_take_nth_drop)
  then show ?thesis by (metis unflips_of_append)
qed

lemma live_ok_pick:
  assumes "live_ok s t P" and "k < length P"
  shows "live_ok s t (P ! k # remove_nth k P)"
proof -
  have "unflips_of t (P ! k # remove_nth k P) = unflips_of t [P ! k] @ unflips_of t (take k P) @ unflips_of t (drop (Suc k) P)"
    by (metis append_Cons append_Nil remove_nth_def unflips_of_append)
  with unflips_of_pick [OF assms(2), of t] assms(1) show ?thesis
    by (auto simp: live_ok_def)
qed

lemma live_ok_tail: "live_ok s t (tm # P) \<Longrightarrow> live_ok s t P"
  by (metis append_Cons append_Nil distinct_append live_ok_def unflips_of_append Un_iff set_append)

lemma wf_game_unflip:
  assumes "wf_game s" and "a < length (cards s)" and "\<not> isMatched (cards s ! a)" and "a \<notin> set (flippedCards s)"
  shows "wf_game (unflipCard a s)"
proof -
  have nth: "k < length (cards s) \<Longrightarrow> cards (unflipCard a s) ! k =
      (if k = a then (cards s ! a)\<lparr>isFlipped := False\<rparr> else cards s ! k)" for k
    by (simp add: unflipCard_def nth_set_card)
  have ids: "ids_ok (unflipCard a s)" using assms(1) by (simp add: unflipCard_def wf_game_def)
  have len: "length (cards (unflipCard a s)) = length (cards s)" by (simp add: unflipCard_def)
  have o: "flippedCards (unflipCard a s) = flippedCards s" "matchedCards (unflipCard a s) = matchedCards s"
    by (simp_all add: unflipCard_def)
  show ?thesis
    using assms ids unfolding wf_game_def
    by (auto simp: len nth o split: if_splits)
qed

lemma unflipCard_nth_other:
  "j \<noteq> a \<Longrightarrow> cards (unflipCard a s) ! j = cards s ! j"
  by (simp add: game_simps)

lemma unflipCard_keeps [simp]:
  "length (cards (unflipCard a s)) = length (cards s)" "flippedCards (unflipCard a s) = flippedCards s"
  "isMatched (cards (unflipCard a s) ! j) = isMatched (cards s ! j)"
    apply (simp_all add: game_simps)
  by (cases "j = a"; cases "a < length (cards s)") (simp_all add: list_update_beyond)

lemma inv_checkMatch:
  assumes "inv_world w"
  shows "inv_world (run_handler (checkMatch (gs w)) w)"
proof -
  let ?s = "gs w"
  have wf: "wf_game ?s" using assms by (simp add: inv_world_def)
  have wf': "wf_game (fst (outcome_state (checkMatch ?s)))" by (rule checkMatch_wf [OF wf])
  have live: "\<forall>j\<in>set (unflips_of (session w) (pending w)). j < length (cards ?s) \<and> isFlipped (cards ?s ! j)
        \<and> \<not> isMatched (cards ?s ! j) \<and> j \<notin> set (flippedCards ?s)"
    using assms by (simp add: inv_world_def live_ok_def)
  show ?thesis
  proof (cases "\<exists>a b. flippedCards ?s = [a, b]")
    case False
    then have "length (flippedCards ?s) < 2" using wf
      by (auto simp: wf_game_def le_Suc_eq length_Suc_conv numeral_2_eq_2)
    then have "outcome_state (checkMatch ?s) = (?s, [])" by (auto simp: checkMatch_def split: list.splits)
    then have "inv_world (run_handler (checkMatch ?s) w) = inv_world w"
      by (intro inv_world_cong) (simp_all add: run_handler_simps)
    with assms show ?thesis by simp
  next
    case True
    then obtain a b where ab: "flippedCards ?s = [a, b]" by blast
    note d = wf_game_matchD [OF wf ab]
    have notab: "j \<noteq> a \<and> j \<noteq> b" if "j \<in> set (unflips_of (session w) (pending w))" for j
      using live that ab by auto
    show ?thesis
    proof (cases "card_value (cards ?s ! a) = card_value (cards ?s ! b)")
      case True
      let ?w' = "run_handler (checkMatch ?s) w"
      let ?new = "timers_of (now w) (session w) (snd (outcome_state (checkMatch ?s)))"
      have eq: "checkMatch ?s = (let s1 = set_card b (\<lambda>c. c\<lparr>isMatched := True\<rparr>) (set_card a (\<lambda>c. c\<lparr>isMatched := True\<rparr>) ?s);
                s3 = s1\<lparr>matchedCards := matchedCards ?s @ [a, b], score := score ?s + 100, flippedCards := []\<rparr>
            in Done (s3, if length (matchedCards ?s) + 2 = length (cards ?s)
                         then [SetTimeout 1000 GameComplete] else []))"
        by (rule checkMatch_match [OF ab True])
      have nou: "unflips_of (session w) ?new = []" by (simp add: eq Let_def)
      show ?thesis
      proof (rule inv_world_board [OF assms _ _ _ _ nou])
        show "wf_game (gs ?w')" using wf' by (simp add: run_handler_simps)
        show "session ?w' = session w" by (simp add: run_handler_simps)
        show "pending ?w' = pending w @ ?new" by (simp add: run_handler_simps)
        show "\<forall>tm\<in>set ?new. fst (snd tm) = session w" by (blast intro: timers_of_session)
        show "length (cards (gs ?w')) = length (cards ?s)" by (simp add: run_handler_simps eq Let_def)
        show "\<forall>j\<in>set (unflips_of (session w) (pending w)).
                 cards (gs ?w') ! j = cards ?s ! j \<and> j \<notin> set (flippedCards (gs ?w'))"
        proof
          fix j assume "j \<in> set (unflips_of (session w) (pending w))"
          then have "a \<noteq> j" "b \<noteq> j" using notab by auto
          then show "cards (gs ?w') ! j = cards ?s ! j \<and> j \<notin> set (flippedCards (gs ?w'))"
            by (simp add: run_handler_simps eq Let_def set_card_def)
        qed
      qed
    next
      case False
      have eq: "checkMatch ?s = Done (?s\<lparr>canFlip := False, flippedCards := []\<rparr>, [SetTimeout 1000 (UnflipPair a b)])"
        by (rule checkMatch_mismatch [OF ab False])
      have u: "unflips_of (session w) (pending (run_handler (checkMatch ?s) w)) =
               unflips_of (session w) (pending w) @ [a, b]"
        by (simp add: run_handler_simps eq)
      have "distinct (unflips_of (session w) (pending w))" using assms by (simp add: inv_world_def live_ok_def)
      with assms wf' d notab live show ?thesis
        unfolding inv_world_def live_ok_def
        by (auto simp: u run_handler_simps eq)
    qed
  qed
qed

lemma inv_unflip_live:
  assumes wf: "wf_game (gs w)" and ses: "\<forall>tm\<in>set (pending w). fst (snd tm) \<le> session w"
    and live: "live_ok (gs w) (session w) ((due, session w, UnflipPair a b) # pending w)"
  shows "inv_world (w\<lparr>gs := unflip_callback True a b (gs w)\<rparr>)"
proof -
  let ?s = "gs w" and ?U = "unflips_of (session w) (pending w)"
  have u: "unflips_of (session w) ((due, session w, UnflipPair a b) # pending w) = a # b # ?U" by simp
  have dist: "a \<noteq> b" "a \<notin> set ?U" "b \<notin> set ?U" "distinct ?U" using live by (simp_all add: live_ok_def u)
  have la: "a < length (cards ?s)" "\<not> isMatched (cards ?s ! a)" "a \<notin> set (flippedCards ?s)"
    and lb: "b < length (cards ?s)" "\<not> isMatched (cards ?s ! b)" "b \<notin> set (flippedCards ?s)"
    using live by (simp_all add: live_ok_def u)
  have lU: "\<forall>j\<in>set ?U. j < length (cards ?s) \<and> isFlipped (cards ?s ! j) \<and> \<not> isMatched (cards ?s ! j)
      \<and> j \<notin> set (flippedCards ?s)" using live by (simp add: live_ok_def u)
  have wf1: "wf_game (unflipCard a ?s)" by (rule wf_game_unflip [OF wf la])
  have wf2: "wf_game (unflipCard b (unflipCard a ?s))"
    by (rule wf_game_unflip [OF wf1]) (use lb in simp_all)
  have wf3: "wf_game (unflip_callback True a b ?s)"
    using wf2 wf_game_cong [of "(unflipCard b (unflipCard a ?s))\<lparr>canFlip := True\<rparr>" "unflipCard b (unflipCard a ?s)"]
    by (simp add: unflip_callback_def)
  have keep: "cards (unflip_callback True a b ?s) ! j = cards ?s ! j" if "j \<in> set ?U" for j
  proof -
    have "j \<noteq> a" "j \<noteq> b" using that dist by auto
    then show ?thesis by (simp add: unflip_callback_def unflipCard_nth_other)
  qed
  have fl: "flippedCards (unflip_callback True a b ?s) = flippedCards ?s"
    and len: "length (cards (unflip_callback True a b ?s)) = length (cards ?s)"
    by (simp_all add: unflip_callback_def)
  show ?thesis
    using wf3 ses dist(4) lU keep fl len by (simp add: inv_world_def live_ok_def)
qed

lemma inv_timer:
  assumes wf: "wf_game (gs w)" and ses: "\<forall>tm\<in>set (tm0 # pending w). fst (snd tm) \<le> session w"
    and live: "live_ok (gs w) (session w) (tm0 # pending w)"
  shows "inv_world (run_timer tm0 w)"
proof -
  obtain due t cb where tm0: "tm0 = (due, t, cb)" by (cases tm0) auto
  let ?w1 = "w\<lparr>now := max (now w) due\<rparr>"
  have inv1: "inv_world ?w1"
    using wf ses live_ok_tail [OF live] by (simp add: inv_world_def)
  show ?thesis
  proof (cases cb)
    case CheckMatch
    then show ?thesis using inv_checkMatch [OF inv1] by (simp add: run_timer_def tm0)
  next
    case GameComplete
    let ?r = "handleGameComplete (gs ?w1)"
    let ?w' = "run_handler ?r ?w1"
    have hb: "cards (fst (outcome_state ?r)) = cards (gs w)" "flippedCards (fst (outcome_state ?r)) = flippedCards (gs w)"
        "matchedCards (fst (outcome_state ?r)) = matchedCards (gs w)"
        "timers_of (now ?w1) (session ?w1) (snd (outcome_state ?r)) = []"
      using handleGameComplete_board [of "gs w" "now ?w1" "session ?w1"] by simp_all
    have "inv_world ?w' = inv_world ?w1"
      by (rule inv_world_cong) (simp_all only: run_handler_simps hb append_Nil2, simp_all)
    with inv1 GameComplete show ?thesis by (simp add: run_timer_def tm0)
  next
    case (UnflipPair a b)
    show ?thesis
    proof (cases "t = session w")
      case True
      have "inv_world (?w1\<lparr>gs := unflip_callback True a b (gs ?w1)\<rparr>)"
        using inv_unflip_live [of ?w1 due a b] wf ses live True tm0 UnflipPair
        by (simp add: live_ok_def)
      with UnflipPair True show ?thesis by (simp add: run_timer_def tm0)
    next
      case False
      have "inv_world (?w1\<lparr>gs := unflip_callback False a b (gs ?w1)\<rparr>) = inv_world ?w1"
        by (rule inv_world_cong) (simp_all add: unflip_callback_def)
      with inv1 UnflipPair False show ?thesis by (simp add: run_timer_def tm0)
    qed
  qed
qed

lemma set_remove_nth: "set (remove_nth k xs) \<subseteq> set xs"
  by (auto simp: remove_nth_def dest: in_set_takeD in_set_dropD)

lemma inv_fire:
  assumes "inv_world w"
  shows "inv_world (step w Fire)"
proof (cases "pending w = []")
  case True
  with assms show ?thesis by simp
next
  case False
  let ?P = "pending w" and ?k = "earliest (pending w)"
  have k: "?k < length ?P" using False by (rule earliest_less)
  let ?w' = "w\<lparr>pending := remove_nth ?k ?P\<rparr>"
  have "inv_world (run_timer (?P ! ?k) ?w')"
  proof (rule inv_timer)
    show "wf_game (gs ?w')" using assms by (simp add: inv_world_def)
    show "\<forall>tm\<in>set (?P ! ?k # pending ?w'). fst (snd tm) \<le> session ?w'"
      using assms k set_remove_nth [of ?k ?P] nth_mem [OF k] by (auto simp: inv_world_def)
    show "live_ok (gs ?w') (session ?w') (?P ! ?k # pending ?w')"
      using live_ok_pick [OF _ k] assms by (simp add: inv_world_def)
  qed
  with False show ?thesis by (simp add: Let_def)
qed

lemma inv_step:
  assumes "inv_world w"
  shows "inv_world (step w ev)"
proof (cases ev)
  case (StartSession lvl name rnd)
  then show ?thesis
    using inv_new_session [OF assms] startNewGame_board by simp
next
  case (ResetSession confirm rnd)
  then show ?thesis
    using inv_new_session [OF assms] startNewGame_board assms by (simp add: resetGame_def)
next
  case (Click i)
  then show ?thesis using inv_click [OF assms] by simp
next
  case PauseToggle
  have "inv_world (w\<lparr>gs := togglePause (gs w)\<rparr>) = inv_world w"
    by (rule inv_world_cong) (simp_all add: togglePause_def)
  with assms PauseToggle show ?thesis by simp
next
  case (Hint r)
  have "inv_world (w\<lparr>gs := fst (outcome_state (showHint r (gs w)))\<rparr>) = inv_world w"
    by (rule inv_world_cong) (simp_all add: showHint_board)
  with assms Hint show ?thesis by simp
next
  case Tick
  have "inv_world (w\<lparr>gs := clock_tick (now w) (gs w)\<rparr>) = inv_world w"
    by (rule inv_world_cong) (simp_all add: clock_tick_def)
  with assms Tick show ?thesis by simp
next
  case Fire
  then show ?thesis using inv_fire [OF assms] by simp
next
  case (Wait d)
  have "inv_world (w\<lparr>now := now w + d\<rparr>) = inv_world w"
    by (rule inv_world_cong) simp_all
  with assms Wait show ?thesis by simp
qed

lemma reachable_inv: "reachable w \<Longrightarrow> inv_world w"
  by (induction rule: reachable.induct) (simp_all add: inv_world0 inv_step)

text \<open>C1 (invariant): In every state the event loop can reach (any interleaving of starts, resets, clicks, pauses, hints, clock ticks and timeouts) the session is well-formed: ids are positions, at most two distinct face-up unmatched cards are pending, matchedCards lists exactly the matched cards once each, and matched cards stay face up.\<close>

theorem reachable_wf_game:
  "reachable w \<Longrightarrow> wf_game (gs w)"
  using reachable_inv by (simp add: inv_world_def)

lemma reachable_run: "reachable w \<Longrightarrow> reachable (run w evs)"
  by (induction evs arbitrary: w) (simp_all add: run_def reachable.step)

lemma checkMatch_flags:
  "isGameOver (fst (outcome_state (checkMatch s))) = isGameOver s
   \<and> isPlaying (fst (outcome_state (checkMatch s))) = isPlaying s
   \<and> isPaused (fst (outcome_state (checkMatch s))) = isPaused s"
  by (simp add: checkMatch_def handleMatch_def handleMismatch_def addScore_def set_card_def Let_def
           split: list.split prod.split)


text \<open>C8 (safety): A completion timeout scheduled by the previous session still fires after a restart: it marks the fresh session (no move made yet) as over, stops its clock and leaves its board as it is, although the spec requires an expired delay callback after a reset to be a no-op.\<close>

theorem stale_completion_ends_new_session:
  assumes "GAME_LEVELS lvl = Some cfg" and "random_ok rnd"
    and "pending w = [(due, session w, GameComplete)]"
  shows "let w1 = step w (StartSession lvl name rnd); w2 = step w1 Fire
         in isPlaying (gs w1) \<and> \<not> isGameOver (gs w1) \<and> moves (gs w1) = 0
            \<and> isGameOver (gs w2) \<and> \<not> isPlaying (gs w2) \<and> \<not> ticking w2 \<and> cards (gs w2) = cards (gs w1)"
proof -
  obtain syms where syms: "CARD_DATA ''animals'' = Some syms" by (simp add: CARD_DATA_def)
  obtain d where d: "generateRandomCards rnd lvl ''animals'' = Inr d"
    using generateRandomCards_mset [OF assms(1) syms assms(2)] by blast
  have z: "calculateScore t 0 lvl = Inl NonFinite" for t
    using assms(1) by (simp add: calculateScore_def Let_def)
  show ?thesis
    using assms(1,3) d z
    by (simp add: startNewGame_def resetGameState_def run_handler_def new_session_def initial_state_def
                  Let_def run_timer_def remove_nth_def handleGameComplete_def)
qed

text \<open>C27 (functional): The pending checkMatch timeout acts while the session is paused: a matching pair is resolved, both cards matched and 100 points added, with the session still paused.\<close>

theorem checkMatch_fires_while_paused:
  assumes "isPaused (gs w)" and "pending w = [(due, t, CheckMatch)]"
    and "flippedCards (gs w) = [a, b]" and "card_value (cards (gs w) ! a) = card_value (cards (gs w) ! b)"
    and "b < length (cards (gs w))"
  shows "isPaused (gs (step w Fire)) \<and> isMatched (cards (gs (step w Fire)) ! b)
         \<and> score (gs (step w Fire)) = score (gs w) + 100 \<and> flippedCards (gs (step w Fire)) = []"
  using assms checkMatch_match [OF assms(3,4)]
  by (simp add: run_timer_def remove_nth_def run_handler_simps Let_def set_card_def)

lemma timers_weight_append [simp]: "timers_weight (xs @ ys) = timers_weight xs + timers_weight ys"
  by (simp add: timers_weight_def)

lemma timers_weight_pick:
  "k < length P \<Longrightarrow> timers_weight P = timers_weight (remove_nth k P) + cb_weight (snd (snd (P ! k)))"
proof -
  assume k: "k < length P"
  then have "P = take k P @ [P ! k] @ drop (Suc k) P" by (simp add: id_take_nth_drop)
  then have "timers_weight P = timers_weight (take k P) + timers_weight [P ! k] + timers_weight (drop (Suc k) P)"
    by (metis timers_weight_append add.assoc)
  then show ?thesis by (simp add: remove_nth_def timers_weight_def)
qed

lemma checkMatch_timers:
  "timers_weight (timers_of n t (snd (outcome_state (checkMatch s)))) \<le> 1"
  by (simp add: checkMatch_def handleMatch_def handleMismatch_def Let_def timers_weight_def
           split: list.split prod.split)

lemma fire_weight:
  assumes "pending w \<noteq> []"
  shows "timers_weight (pending (step w Fire)) < timers_weight (pending w)"
proof -
  let ?P = "pending w" and ?k = "earliest (pending w)"
  have k: "?k < length ?P" using assms by (rule earliest_less)
  obtain due t cb where tm: "?P ! ?k = (due, t, cb)" by (metis prod.exhaust)
  let ?w1 = "w\<lparr>pending := remove_nth ?k ?P, now := max (now w) due\<rparr>"
  have w: "timers_weight ?P = timers_weight (remove_nth ?k ?P) + cb_weight cb"
    using timers_weight_pick [OF k] tm by simp
  show ?thesis
  proof (cases cb)
    case CheckMatch
    have "pending (step w Fire) = remove_nth ?k ?P @ timers_of (now ?w1) (session ?w1) (snd (outcome_state (checkMatch (gs ?w1))))"
      using assms CheckMatch tm by (simp add: Let_def run_timer_def run_handler_simps)
    with w CheckMatch checkMatch_timers [of "now ?w1" "session ?w1" "gs ?w1"] show ?thesis by simp
  next
    case GameComplete
    have "pending (step w Fire) = remove_nth ?k ?P"
      using assms GameComplete tm handleGameComplete_board [of "gs w" "now ?w1" "session ?w1"]
      by (simp add: Let_def run_timer_def run_handler_simps)
    with w GameComplete show ?thesis by simp
  next
    case (UnflipPair a b)
    have "pending (step w Fire) = remove_nth ?k ?P"
      using assms UnflipPair tm by (simp add: Let_def run_timer_def)
    with w UnflipPair show ?thesis by simp
  qed
qed

text \<open>C13 (termination): With no user input the queue of pending timeouts always runs empty: the loop that fires the earliest timeout until none is left returns, although checkMatch schedules a further unflip or completion timeout.\<close>

theorem drain_terminates: "\<exists>w'. drain w = Some w' \<and> pending w' = []"
proof -
  obtain w' where d: "drain w = Some w'"
    using measure_while_option_Some [where P = "\<lambda>_. True" and f = "\<lambda>w. timers_weight (pending w)"
        and b = "\<lambda>w. pending w \<noteq> []" and c = "\<lambda>w. step w Fire" and s = w]
    fire_weight unfolding drain_def by blast
  then have "pending w' = []" unfolding drain_def by (auto dest: while_option_stop)
  with d show ?thesis by blast
qed

lemma drain_reachable:
  assumes r: "reachable w" and d: "drain w = Some w'"
  shows "reachable w'"
proof (rule while_option_rule [where P = reachable, OF _ d [unfolded drain_def] r])
  fix s assume "reachable s"
  then show "reachable (step s Fire)" by (rule reachable.step)
qed

lemma handleCardClick_startTime: "startTime (fst (outcome_state (handleCardClick i s))) = startTime s"
  by (simp add: handleCardClick_def flipCard_def set_card_def Let_def split: option.split prod.split)

lemma checkMatch_startTime: "startTime (fst (outcome_state (checkMatch s))) = startTime s"
  by (simp add: checkMatch_def handleMatch_def handleMismatch_def addScore_def set_card_def Let_def
           split: list.split prod.split)

lemma step_startTime: "\<not> is_start ev \<Longrightarrow> startTime (gs (step w ev)) = startTime (gs w)"
proof (cases ev)
  case Fire
  show ?thesis
  proof (cases "pending w = []")
    case False
    obtain due t cb where tm: "pending w ! earliest (pending w) = (due, t, cb)" by (metis prod.exhaust)
    show ?thesis
      using Fire False checkMatch_startTime [of "gs w"]
      by (cases cb) (simp_all add: tm Let_def run_timer_def run_handler_simps unflip_callback_def
                      handleGameComplete_def game_simps split: sum.split)
  qed (use Fire in simp)
qed (simp_all add: run_handler_simps handleCardClick_startTime togglePause_def showHint_def clock_tick_def Let_def)

lemma run_startTime: "filter is_start evs = [] \<Longrightarrow> startTime (gs (run w evs)) = startTime (gs w)"
  by (induction evs arbitrary: w) (simp_all add: run_def step_startTime split: if_splits)

text \<open>C26 (functional): Pausing does not stop the clock: from a session started at time t0, after any events other than a start or a confirmed reset (pauses, clicks, hints, timeouts, waiting), the next clock tick that finds the session running sets the elapsed time to floor((now - t0) / 1000) seconds, every paused interval included.\<close>

theorem clock_counts_paused_time:
  assumes "startTime (gs w) = Some t0" and "filter is_start evs = []"
    and "ticking (run w evs)" and "\<not> isPaused (gs (run w evs))"
  shows "timeSpent (gs (step (run w evs) Tick)) = (now (run w evs) - t0) div 1000"
  using assms run_startTime [OF assms(2), of w] by (simp add: clock_tick_def)

section \<open>Witnesses\<close>

theorem reachable_wf_game_witness:
  "reachable (run world0 [StartSession 1 ''kim'' (\<lambda>_. 0), Click 0, Click 1, Fire])
   \<and> wf_game (gs (run world0 [StartSession 1 ''kim'' (\<lambda>_. 0), Click 0, Click 1, Fire]))"
proof -
  have r: "reachable (run world0 [StartSession 1 ''kim'' (\<lambda>_. 0), Click 0, Click 1, Fire])"
    by (rule reachable_run [OF reachable.init])
  from reachable_wf_game [OF r] r show ?thesis by simp
qed


theorem stale_completion_ends_new_session_witness:
  "GAME_LEVELS 1 = Some (the (GAME_LEVELS 1)) \<and> random_ok (\<lambda>_. 0)
   \<and> pending (world0\<lparr>pending := [(1000, 0, GameComplete)]\<rparr>) =
       [(1000, session (world0\<lparr>pending := [(1000, 0, GameComplete)]\<rparr>), GameComplete)]
   \<and> (let w1 = step (world0\<lparr>pending := [(1000, 0, GameComplete)]\<rparr>) (StartSession 1 ''kim'' (\<lambda>_. 0));
          w2 = step w1 Fire
      in isPlaying (gs w1) \<and> \<not> isGameOver (gs w1) \<and> moves (gs w1) = 0
         \<and> isGameOver (gs w2) \<and> \<not> isPlaying (gs w2) \<and> \<not> ticking w2 \<and> cards (gs w2) = cards (gs w1))"
proof -
  have g: "GAME_LEVELS 1 = Some (the (GAME_LEVELS 1))" by (simp add: GAME_LEVELS_def)
  have r: "random_ok (\<lambda>_. 0)" by (simp add: random_ok_def)
  have p: "pending (world0\<lparr>pending := [(1000, 0, GameComplete)]\<rparr>) =
       [(1000, session (world0\<lparr>pending := [(1000, 0, GameComplete)]\<rparr>), GameComplete)]"
    by (simp add: world0_def)
  from stale_completion_ends_new_session [OF g r p, of "''kim''"] g r p show ?thesis by simp
qed

theorem checkMatch_fires_while_paused_witness:
  "isPaused (gs (world0\<lparr>gs := demo_game\<lparr>isPaused := True, flippedCards := [0, 2]\<rparr>, pending := [(600, 0, CheckMatch)]\<rparr>))
   \<and> isMatched (cards (gs (step (world0\<lparr>gs := demo_game\<lparr>isPaused := True, flippedCards := [0, 2]\<rparr>,
                                       pending := [(600, 0, CheckMatch)]\<rparr>) Fire)) ! 2)
   \<and> score (gs (step (world0\<lparr>gs := demo_game\<lparr>isPaused := True, flippedCards := [0, 2]\<rparr>,
                                pending := [(600, 0, CheckMatch)]\<rparr>) Fire)) = 100"
proof -
  let ?w = "world0\<lparr>gs := demo_game\<lparr>isPaused := True, flippedCards := [0, 2]\<rparr>, pending := [(600, 0, CheckMatch)]\<rparr>"
  have h: "isPaused (gs ?w)" "pending ?w = [(600, 0, CheckMatch)]" "flippedCards (gs ?w) = [0, 2]"
      "card_value (cards (gs ?w) ! 0) = card_value (cards (gs ?w) ! 2)" "2 < length (cards (gs ?w))"
    by (simp_all add: make_cards_def)
  from checkMatch_fires_while_paused [OF h] h(1) show ?thesis by (simp add: initial_state_def)
qed

theorem clock_counts_paused_time_witness:
  "startTime (gs (world0\<lparr>gs := demo_game, ticking := True\<rparr>)) = Some 0
   \<and> filter is_start [Tick, PauseToggle, Wait 49000, Tick, PauseToggle, Wait 50000] = []
   \<and> ticking (run (world0\<lparr>gs := demo_game, ticking := True\<rparr>) [Tick, PauseToggle, Wait 49000, Tick, PauseToggle, Wait 50000])
   \<and> \<not> isPaused (gs (run (world0\<lparr>gs := demo_game, ticking := True\<rparr>) [Tick, PauseToggle, Wait 49000, Tick, PauseToggle, Wait 50000]))
   \<and> timeSpent (gs (step (run (world0\<lparr>gs := demo_game, ticking := True\<rparr>) [Tick, PauseToggle, Wait 49000, Tick, PauseToggle, Wait 50000]) Tick)) = 99"
proof -
  let ?w = "world0\<lparr>gs := demo_game, ticking := True\<rparr>"
  let ?evs = "[Tick, PauseToggle, Wait 49000, Tick, PauseToggle, Wait 50000]"
  have r: "ticking (run ?w ?evs)" "\<not> isPaused (gs (run ?w ?evs))" "now (run ?w ?evs) = 99000"
    by (simp_all add: run_def world0_def togglePause_def clock_tick_def initial_state_def)
  have h: "startTime (gs ?w) = Some 0" "filter is_start ?evs = []" by simp_all
  from clock_counts_paused_time [OF h r(1,2)] r h show ?thesis by simp
qed
end
