(* ===== verification/Database.thy ===== *)
theory Database
  imports Prelude
begin

text \<open>
  The score store \<open>src/scripts/database.js\<close>. It writes completed games to the
  remote table \<open>card_game_scores\<close> of a Supabase project, falls back to the list
  under the \<open>localStorage\<close> key \<open>cardgame_best_scores\<close> when the remote write fails,
  answers leaderboard and best-score queries remote-first with a local fallback,
  probes the connection and pushes locally queued records back to the remote table.

  The store's state is a record of the local storage (the parsed list, and whether
  \<open>localStorage.setItem\<close> succeeds: \<open>storage.set\<close> swallows a quota or
  availability failure), the remote table with whether a client exists
  (\<open>GameConfig.supabase()\<close> is not \<open>null\<close>), and the module-level
  \<open>connectionStatus\<close>. Every remote call is answered by a value of \<open>net\<close>, given
  to the operation: success, an error object in the response, a thrown exception,
  or a write that reached the table but whose acknowledgement came back as an error.
\<close>

section \<open>State\<close>

text \<open>A row, local or remote; \<open>isLocal\<close> is absent from remote rows (false).\<close>

record score_row =
  row_id :: nat
  player_name :: string
  row_score :: int
  row_level :: nat
  cards_flipped :: nat
  time_taken :: seconds
  completed_at :: ms
  isLocal :: bool

record local_storage =
  best_scores :: "score_row list option"
  storage_writable :: bool

record remote_db =
  has_client :: bool
  remote_rows :: "score_row list"

datatype conn_status = Checking | Online | Offline | ConnError

record store =
  local_st :: local_storage
  remote_st :: remote_db
  connectionStatus :: conn_status

datatype net = NetOk | NetFail | NetThrow | NetLostAck

text \<open>\<open>storage.get(BEST_SCORES) || []\<close> and \<open>storage.set(BEST_SCORES, v)\<close>.\<close>

definition get_scores :: "local_storage \<Rightarrow> score_row list" where
  "get_scores ls = (case best_scores ls of None \<Rightarrow> [] | Some xs \<Rightarrow> xs)"

definition set_scores :: "score_row list \<Rightarrow> local_storage \<Rightarrow> local_storage" where
  "set_scores xs ls = (if storage_writable ls then ls\<lparr>best_scores := Some xs\<rparr> else ls)"

text \<open>
  An \<open>insert\<close> that reaches the table: the server assigns the next serial id and the
  completion time.
\<close>

definition remote_insert :: "score_entry \<Rightarrow> ms \<Rightarrow> remote_db \<Rightarrow> remote_db" where
  "remote_insert e now r =
     r\<lparr>remote_rows := remote_rows r @
        [\<lparr>row_id = Suc (length (remote_rows r)), player_name = entry_player e, row_score = entry_score e,
          row_level = entry_level e, cards_flipped = entry_flips e, time_taken = entry_time e,
          completed_at = now, isLocal = False\<rparr>]\<rparr>"

section \<open>Saving a score\<close>

text \<open>
  \<open>saveScoreToLocal(...)\<close>: push a record tagged \<open>isLocal\<close>, sort by descending
  score, keep the first 20 (\<open>splice(20)\<close>), store. \<open>Date.now()\<close> is both the
  temporary id and the completion time.
\<close>

definition local_row :: "score_entry \<Rightarrow> ms \<Rightarrow> score_row" where
  "local_row e now =
     \<lparr>row_id = now, player_name = (if entry_player e = [] then anonymous else entry_player e),
      row_score = entry_score e, row_level = entry_level e, cards_flipped = entry_flips e,
      time_taken = entry_time e, completed_at = now, isLocal = True\<rparr>"

definition saveScoreToLocal :: "score_entry \<Rightarrow> ms \<Rightarrow> local_storage \<Rightarrow> local_storage \<times> bool" where
  "saveScoreToLocal e now ls =
     (let localScores = get_scores ls @ [local_row e now];
          kept = take 20 (sort_desc row_score localScores)
      in (set_scores kept ls, True))"

datatype save_outcome = SavedRemote | SavedLocalOnly error

text \<open>
  \<open>saveGameScore(...)\<close>: no client throws; an error in the response is rethrown;
  the \<open>catch\<close> saves locally and reports \<open>success: false\<close>.
\<close>

definition saveGameScore :: "score_entry \<Rightarrow> net \<Rightarrow> ms \<Rightarrow> store \<Rightarrow> store \<times> save_outcome" where
  "saveGameScore e n now st =
     (let gameData = e\<lparr>entry_player := (if entry_player e = [] then anonymous else entry_player e)\<rparr>;
          fallback = (\<lambda>st' err. (st'\<lparr>local_st := fst (saveScoreToLocal e now (local_st st'))\<rparr>,
                                  SavedLocalOnly err))
      in if \<not> has_client (remote_st st) then fallback st NoClient
         else case n of
                NetOk \<Rightarrow> (st\<lparr>remote_st := remote_insert gameData now (remote_st st)\<rparr>, SavedRemote)
              | NetLostAck \<Rightarrow> fallback (st\<lparr>remote_st := remote_insert gameData now (remote_st st)\<rparr>) RemoteError
              | _ \<Rightarrow> fallback st RemoteError)"

section \<open>Queries\<close>

text \<open>
  The level filter \<open>if (level && level !== 'all')\<close>: \<open>None\<close> is \<open>null\<close> or
  \<open>'all'\<close>; a level of 0 is falsy and filters nothing.
\<close>

definition level_filter :: "nat option \<Rightarrow> score_row list \<Rightarrow> score_row list" where
  "level_filter lvl xs = (case lvl of Some l \<Rightarrow> if l \<noteq> 0 then filter (\<lambda>r. row_level r = l) xs else xs | None \<Rightarrow> xs)"

datatype board = Board "score_row list" bool \<comment> \<open>data, and whether it is the local fallback\<close>

definition getLocalLeaderboard :: "nat option \<Rightarrow> nat \<Rightarrow> local_storage \<Rightarrow> board" where
  "getLocalLeaderboard lvl limit ls =
     Board (take limit (sort_desc row_score (level_filter lvl (get_scores ls)))) True"

text \<open>
  \<open>getLeaderboard(level, limit)\<close>: \<open>select * order by score desc limit n\<close> with the
  level condition, or the local list when there is no client or the query fails.
  Rows of equal score come in table order.
\<close>

definition getLeaderboard :: "nat option \<Rightarrow> nat \<Rightarrow> net \<Rightarrow> store \<Rightarrow> board" where
  "getLeaderboard lvl limit n st =
     (if \<not> has_client (remote_st st) then getLocalLeaderboard lvl limit (local_st st)
      else if n = NetOk
      then Board (take limit (sort_desc row_score (level_filter lvl (remote_rows (remote_st st))))) False
      else getLocalLeaderboard lvl limit (local_st st))"

definition getLocalPlayerBestScore :: "string \<Rightarrow> nat option \<Rightarrow> local_storage \<Rightarrow> score_row option \<times> bool" where
  "getLocalPlayerBestScore name lvl ls =
     (let xs = sort_desc row_score (level_filter lvl (filter (\<lambda>r. player_name r = name) (get_scores ls)))
      in (case xs of [] \<Rightarrow> None | x # _ \<Rightarrow> Some x, True))"

definition getPlayerBestScore :: "string \<Rightarrow> nat option \<Rightarrow> net \<Rightarrow> store \<Rightarrow> score_row option \<times> bool" where
  "getPlayerBestScore name lvl n st =
     (if \<not> has_client (remote_st st) \<or> n \<noteq> NetOk then getLocalPlayerBestScore name lvl (local_st st)
      else (let xs = sort_desc row_score (level_filter lvl
                       (filter (\<lambda>r. player_name r = name) (remote_rows (remote_st st))))
            in (case xs of [] \<Rightarrow> None | x # _ \<Rightarrow> Some x, False)))"

section \<open>Statistics\<close>

record level_stat =
  st_count :: nat
  st_total :: int
  st_avg :: int
  st_best :: int

text \<open>
  \<open>calculateLevelStats(scores)\<close>: one pass accumulating count, total and best per
  level (best starts at 0), then \<open>avgScore = Math.round(total / count)\<close>, which is
  \<open>\<lfloor>total / count + 1/2\<rfloor>\<close>.
\<close>

fun stats_loop :: "score_row list \<Rightarrow> (nat \<rightharpoonup> level_stat) \<Rightarrow> (nat \<rightharpoonup> level_stat)" where
  "stats_loop [] m = m"
| "stats_loop (r # rs) m =
     (let l = row_level r;
          cur = (case m l of None \<Rightarrow> \<lparr>st_count = 0, st_total = 0, st_avg = 0, st_best = 0\<rparr> | Some x \<Rightarrow> x);
          new = cur\<lparr>st_count := Suc (st_count cur), st_total := st_total cur + row_score r,
                    st_best := max (st_best cur) (row_score r)\<rparr>
      in stats_loop rs (m(l \<mapsto> new)))"

definition js_round_div :: "int \<Rightarrow> nat \<Rightarrow> int" where
  "js_round_div t c = (2 * t + int c) div (2 * int c)"

definition calculateLevelStats :: "score_row list \<Rightarrow> (nat \<rightharpoonup> level_stat)" where
  "calculateLevelStats scores =
     (\<lambda>l. map_option (\<lambda>st. st\<lparr>st_avg := js_round_div (st_total st) (st_count st)\<rparr>)
            (stats_loop scores Map.empty l))"

record game_stats =
  totalGames :: nat
  topScore :: "score_row option"
  levelStats :: "nat \<rightharpoonup> level_stat"

definition getLocalGameStats :: "local_storage \<Rightarrow> game_stats \<times> bool" where
  "getLocalGameStats ls =
     (let xs = get_scores ls
      in (\<lparr>totalGames = length xs,
           topScore = (case sort_desc row_score xs of [] \<Rightarrow> None | x # _ \<Rightarrow> Some x),
           levelStats = calculateLevelStats xs\<rparr>, True))"

text \<open>
  \<open>getGameStats()\<close>: three remote queries whose \<open>error\<close> fields are never read; a
  query that answers with an error yields \<open>undefined\<close> data and the defaults
  (0 games, no top score, no statistics). Only a thrown exception reaches the
  \<open>catch\<close> and the local statistics.
\<close>

definition getGameStats :: "net \<Rightarrow> net \<Rightarrow> net \<Rightarrow> store \<Rightarrow> game_stats \<times> bool" where
  "getGameStats n1 n2 n3 st =
     (if \<not> has_client (remote_st st) \<or> NetThrow \<in> {n1, n2, n3} then getLocalGameStats (local_st st)
      else (let rows = remote_rows (remote_st st)
            in (\<lparr>totalGames = (if n1 = NetOk then length rows else 0),
                 topScore = (if n3 = NetOk then (case sort_desc row_score rows of [] \<Rightarrow> None | x # _ \<Rightarrow> Some x)
                             else None),
                 levelStats = calculateLevelStats (if n2 = NetOk then rows else [])\<rparr>, False)))"

section \<open>Connection and synchronisation\<close>

text \<open>\<open>checkConnectionStatus()\<close>: sets the module variable and answers online or not.\<close>

definition checkConnectionStatus :: "net \<Rightarrow> store \<Rightarrow> store \<times> bool" where
  "checkConnectionStatus n st =
     (if \<not> has_client (remote_st st) then (st\<lparr>connectionStatus := Offline\<rparr>, False)
      else case n of
             NetOk \<Rightarrow> (st\<lparr>connectionStatus := Online\<rparr>, True)
           | NetThrow \<Rightarrow> (st\<lparr>connectionStatus := Offline\<rparr>, False)
           | _ \<Rightarrow> (st\<lparr>connectionStatus := ConnError\<rparr>, False))"

definition getConnectionStatus :: "store \<Rightarrow> conn_status" where
  "getConnectionStatus st = connectionStatus st"

text \<open>\<open>checkDatabaseConnection()\<close>: whether a client exists.\<close>

definition checkDatabaseConnection :: "store \<Rightarrow> bool" where
  "checkDatabaseConnection st = has_client (remote_st st)"

text \<open>
  The last statement of \<open>database.js\<close>: \<open>checkConnectionStatus()\<close> run as the script
  loads, answered by \<open>n\<close> (its promise is not awaited).
\<close>

definition database_load :: "net \<Rightarrow> store \<Rightarrow> store" where
  "database_load n st = fst (checkConnectionStatus n st)"

text \<open>
  The loop of \<open>syncOfflineData()\<close> over the records tagged \<open>isLocal\<close>, in list
  order: the \<open>k\<close>-th insert is answered by \<open>nets k\<close>; a success clears the flag of
  the very object held in the local list (the filtered list shares the objects) and
  counts it. The result is the updated local list, the remote table, the count of
  synced records and the number of inserts issued.
\<close>

fun sync_loop :: "(nat \<Rightarrow> net) \<Rightarrow> nat \<Rightarrow> ms \<Rightarrow> score_row list \<Rightarrow> remote_db \<Rightarrow>
                  score_row list \<times> remote_db \<times> nat \<times> nat" where
  "sync_loop nets k now [] r = ([], r, 0, k)"
| "sync_loop nets k now (x # xs) r =
     (if \<not> isLocal x then (let (ys, r', c, k') = sync_loop nets k now xs r in (x # ys, r', c, k'))
      else
        (let e = \<lparr>entry_player = player_name x, entry_score = row_score x, entry_level = row_level x,
                  entry_flips = cards_flipped x, entry_time = time_taken x\<rparr>
         in case nets k of
              NetOk \<Rightarrow> (let (ys, r', c, k') = sync_loop nets (Suc k) now xs (remote_insert e now r)
                        in (x\<lparr>isLocal := False\<rparr> # ys, r', Suc c, k'))
            | NetLostAck \<Rightarrow> (let (ys, r', c, k') = sync_loop nets (Suc k) now xs (remote_insert e now r)
                            in (x # ys, r', c, k'))
            | _ \<Rightarrow> (let (ys, r', c, k') = sync_loop nets (Suc k) now xs r in (x # ys, r', c, k'))))"

text \<open>A record with its pending tag cleared: what synchronisation may change.\<close>

definition unflag :: "score_row \<Rightarrow> score_row" where
  "unflag r = r\<lparr>isLocal := False\<rparr>"

text \<open>The fields a pending record carries into the remote table.\<close>

definition row_key :: "score_row \<Rightarrow> string \<times> int \<times> nat \<times> nat \<times> seconds" where
  "row_key x = (player_name x, row_score x, row_level x, cards_flipped x, time_taken x)"

datatype sync_outcome = Synced nat | SyncFailed error

definition syncOfflineData :: "(nat \<Rightarrow> net) \<Rightarrow> ms \<Rightarrow> store \<Rightarrow> store \<times> sync_outcome" where
  "syncOfflineData nets now st =
     (let localScores = get_scores (local_st st)
      in if filter isLocal localScores = [] then (st, Synced 0)
         else if \<not> has_client (remote_st st) then (st, SyncFailed NoClient)
         else (let (ys, r', c, _) = sync_loop nets 0 now localScores (remote_st st)
               in (st\<lparr>local_st := set_scores ys (local_st st), remote_st := r'\<rparr>, Synced c)))"

section \<open>Example stores\<close>

text \<open>Stores and entries the witnesses and scenarios below run the operations on.\<close>

abbreviation demo_entry :: score_entry where
  "demo_entry \<equiv> \<lparr>entry_player = ''kim'', entry_score = 1000, entry_level = 1, entry_flips = 12, entry_time = 60\<rparr>"

abbreviation demo_store :: store where
  "demo_store \<equiv> \<lparr>local_st = \<lparr>best_scores = None, storage_writable = True\<rparr>,
                 remote_st = \<lparr>has_client = True, remote_rows = []\<rparr>, connectionStatus = Online\<rparr>"

abbreviation full_store :: local_storage where
  "full_store \<equiv> \<lparr>best_scores = Some (replicate 20 (local_row (demo_entry\<lparr>entry_score := 2000\<rparr>) 1)),
                  storage_writable = True\<rparr>"

abbreviation pending_store :: store where
  "pending_store \<equiv> demo_store\<lparr>local_st := \<lparr>best_scores = Some [local_row demo_entry 5], storage_writable = True\<rparr>\<rparr>"

section \<open>Properties of the score store\<close>

declare get_scores_def [store_simps] set_scores_def [store_simps] local_row_def [store_simps]

lemma get_set_scores [simp]: "storage_writable ls \<Longrightarrow> get_scores (set_scores xs ls) = xs"
  by (simp add: store_simps)

lemma set_scores_unwritable [simp]: "\<not> storage_writable ls \<Longrightarrow> set_scores xs ls = ls"
  by (simp add: set_scores_def)

lemma storage_writable_set_scores [simp]: "storage_writable (set_scores xs ls) = storage_writable ls"
  by (simp add: set_scores_def)

lemma saveScoreToLocal_kept:
  "storage_writable ls \<Longrightarrow>
   get_scores (fst (saveScoreToLocal e now ls)) = take 20 (sort_desc row_score (get_scores ls @ [local_row e now]))"
  by (simp add: saveScoreToLocal_def Let_def)

lemma saveScoreToLocal_ok: "snd (saveScoreToLocal e now ls) = True"
  by (simp add: saveScoreToLocal_def Let_def)

text \<open>In a list sorted by a key, the elements of smaller key all precede position i.\<close>

lemma sorted_filter_less_bound:
  fixes f :: "'a \<Rightarrow> int"
  assumes "sorted (map f xs)" and "i < length xs"
  shows "length (filter (\<lambda>y. f y < f (xs ! i)) xs) \<le> i"
proof -
  let ?P = "\<lambda>y. f y < f (xs ! i)"
  have "filter ?P (drop i xs) = []"
  proof -
    have "\<forall>y\<in>set (drop i xs). f (xs ! i) \<le> f y"
    proof
      fix y assume "y \<in> set (drop i xs)"
      then obtain k where k: "k < length (drop i xs)" "y = drop i xs ! k"
        by (auto simp: in_set_conv_nth)
      then have "(map f xs) ! i \<le> (map f xs) ! (i + k)"
        using assms by (intro sorted_nth_mono) auto
      with k assms(2) show "f (xs ! i) \<le> f y" by simp
    qed
    then show ?thesis by (auto simp: filter_empty_conv)
  qed
  then have "length (filter ?P xs) = length (filter ?P (take i xs))"
    by (metis append_Nil2 append_take_drop_id filter_append)
  also have "\<dots> \<le> i" using length_filter_le [of ?P "take i xs"] by simp
  finally show ?thesis .
qed

theorem saveScoreToLocal_top20:
  assumes "storage_writable ls" and "saveScoreToLocal e now ls = (ls', ok)"
  shows "ok \<and> length (get_scores ls') \<le> 20
         \<and> sorted (map (\<lambda>r. - row_score r) (get_scores ls'))
         \<and> mset (get_scores ls') \<subseteq># mset (get_scores ls @ [local_row e now])
         \<and> (\<forall>x\<in>set (get_scores ls'). \<forall>y\<in>#mset (get_scores ls @ [local_row e now]) - mset (get_scores ls').
               row_score y \<le> row_score x)"
proof -
  let ?L = "sort_desc row_score (get_scores ls @ [local_row e now])"
  have kept: "get_scores ls' = take 20 ?L" and ok: ok
    using assms saveScoreToLocal_kept [of ls e now] saveScoreToLocal_ok [of e now ls] by auto
  have all: "mset (get_scores ls @ [local_row e now]) = mset (take 20 ?L) + mset (drop 20 ?L)"
    by (metis mset_append append_take_drop_id mset_sort_desc)
  have srt: "sorted (map (\<lambda>r. - row_score r) ?L)" by (rule sorted_sort_desc)
  have "\<forall>x\<in>set (take 20 ?L). \<forall>y\<in>set (drop 20 ?L). row_score y \<le> row_score x"
    using sorted_desc_take_drop [OF srt] by blast
  with kept all ok srt show ?thesis
    by (simp add: sorted_desc_take)
qed

text \<open>C9 (safety): When 20 stored records score strictly higher than a new result, saving it locally drops the new, still unsynced record at once.\<close>

theorem saveScoreToLocal_evicts_pending:
  assumes "storage_writable ls"
    and "20 \<le> length (filter (\<lambda>r. entry_score e < row_score r) (get_scores ls))"
  shows "local_row e now \<notin> set (get_scores (fst (saveScoreToLocal e now ls)))"
proof
  let ?L = "sort_desc row_score (get_scores ls @ [local_row e now])"
  let ?f = "\<lambda>r. - row_score r"
  assume "local_row e now \<in> set (get_scores (fst (saveScoreToLocal e now ls)))"
  then have "local_row e now \<in> set (take 20 ?L)"
    using assms(1) by (simp add: saveScoreToLocal_kept)
  then obtain i where "i < length (take 20 ?L)" "take 20 ?L ! i = local_row e now"
    by (meson in_set_conv_nth)
  then have i: "i < 20" "i < length ?L" "?L ! i = local_row e now"
    by auto
  have "length (filter (\<lambda>y. ?f y < ?f (?L ! i)) ?L) \<le> i"
    using sorted_sort_desc i(2) by (rule sorted_filter_less_bound)
  moreover have "length (filter (\<lambda>y. ?f y < ?f (?L ! i)) ?L)
                 = length (filter (\<lambda>y. entry_score e < row_score y) (get_scores ls @ [local_row e now]))"
  proof -
    have "mset (filter (\<lambda>y. entry_score e < row_score y) ?L)
          = mset (filter (\<lambda>y. entry_score e < row_score y) (get_scores ls @ [local_row e now]))"
      by (simp only: mset_filter mset_sort_desc)
    then show ?thesis using i(3) by (simp add: local_row_def mset_eq_length)
  qed
  moreover have "length (filter (\<lambda>y. entry_score e < row_score y) (get_scores ls @ [local_row e now]))
                 = length (filter (\<lambda>r. entry_score e < row_score r) (get_scores ls))"
    by (simp add: local_row_def)
  ultimately show False using assms(2) i(1) by linarith
qed


section \<open>Synchronisation\<close>

lemma sync_loop_rows:
  assumes "sync_loop nets k now xs r = (ys, r', c, k')"
  shows "map unflag ys = map unflag xs \<and> length ys = length xs
         \<and> (\<forall>i<length xs. isLocal (ys ! i) \<longrightarrow> isLocal (xs ! i))
         \<and> k' = k + length (filter isLocal xs)
         \<and> c + length (filter isLocal ys) = length (filter isLocal xs)"
  using assms
proof (induction nets k now xs r arbitrary: ys r' c k' rule: sync_loop.induct)
  case (1 nets k now r)
  then show ?case by simp
next
  case (2 nets k now x xs r)
  show ?case
  proof (cases "isLocal x")
    case False
    with "2.prems" obtain ys0 where "sync_loop nets k now xs r = (ys0, r', c, k')" "ys = x # ys0"
      by (auto split: prod.splits)
    with "2.IH"(1) False show ?thesis by (auto simp: nth_Cons split: nat.splits)
  next
    case True
    note loc = True
    let ?e = "\<lparr>entry_player = player_name x, entry_score = row_score x, entry_level = row_level x,
                entry_flips = cards_flipped x, entry_time = time_taken x\<rparr>"
    show ?thesis
    proof (cases "nets k")
      case NetOk
      with "2.prems" loc obtain ys0 c0 where
        r: "sync_loop nets (Suc k) now xs (remote_insert ?e now r) = (ys0, r', c0, k')"
        and ys: "ys = x\<lparr>isLocal := False\<rparr> # ys0" and c: "c = Suc c0"
        by (auto split: prod.splits)
      from "2.IH"(2) [OF _ refl NetOk r] ys c loc show ?thesis
        by (auto simp: unflag_def nth_Cons split: nat.splits)
    next
      case NetLostAck
      with "2.prems" loc obtain ys0 where
        r: "sync_loop nets (Suc k) now xs (remote_insert ?e now r) = (ys0, r', c, k')" and ys: "ys = x # ys0"
        by (auto split: prod.splits)
      from "2.IH"(5) [OF _ refl NetLostAck r] ys loc show ?thesis
        by (auto simp: nth_Cons split: nat.splits)
    next
      case NetFail
      with "2.prems" loc obtain ys0 where
        r: "sync_loop nets (Suc k) now xs r = (ys0, r', c, k')" and ys: "ys = x # ys0"
        by (auto split: prod.splits)
      from "2.IH"(3) [OF _ refl NetFail r] ys loc show ?thesis
        by (auto simp: nth_Cons split: nat.splits)
    next
      case NetThrow
      with "2.prems" loc obtain ys0 where
        r: "sync_loop nets (Suc k) now xs r = (ys0, r', c, k')" and ys: "ys = x # ys0"
        by (auto split: prod.splits)
      from "2.IH"(4) [OF _ refl NetThrow r] ys loc show ?thesis
        by (auto simp: nth_Cons split: nat.splits)
    qed
  qed
qed


lemma sync_loop_all_ok:
  assumes "\<forall>j. nets j = NetOk" and "sync_loop nets k now xs r = (ys, r', c, k')"
  shows "(\<forall>y\<in>set ys. \<not> isLocal y) \<and> length (remote_rows r') = length (remote_rows r) + length (filter isLocal xs)"
  using assms(2)
proof (induction xs arbitrary: k r ys r' c k')
  case Nil
  then show ?case by simp
next
  case (Cons x xs)
  then show ?case
    using assms(1) by (auto simp: remote_insert_def split: prod.splits if_splits)
qed

text \<open>C38 (invariant): After a synchronisation whose remote inserts all succeed (storage writable), a second synchronisation issues no remote write and changes nothing.\<close>

theorem syncOfflineData_idempotent:
  assumes "syncOfflineData nets now st = (st1, Synced c)"
    and "\<forall>j. nets j = NetOk" and "storage_writable (local_st st)"
  shows "syncOfflineData nets' now' st1 = (st1, Synced 0)"
proof (cases "filter isLocal (get_scores (local_st st)) = []")
  case True
  with assms(1) have "st1 = st" by (simp add: syncOfflineData_def)
  with True show ?thesis by (simp add: syncOfflineData_def)
next
  case False
  with assms(1) have cl: "has_client (remote_st st)"
    by (auto simp: syncOfflineData_def split: if_splits)
  obtain ys r' c' k' where sl: "sync_loop nets 0 now (get_scores (local_st st)) (remote_st st) = (ys, r', c', k')"
    by (metis prod_cases4)
  with assms(1) False cl have st1: "st1 = st\<lparr>local_st := set_scores ys (local_st st), remote_st := r'\<rparr>"
    by (simp add: syncOfflineData_def)
  have "\<forall>y\<in>set ys. \<not> isLocal y" using sync_loop_all_ok [OF assms(2) sl] by simp
  then have "filter isLocal (get_scores (local_st st1)) = []"
    using st1 assms(3) by (simp add: filter_empty_conv)
  then show ?thesis by (simp add: syncOfflineData_def)
qed

text \<open>C11 (safety): Synchronisation never deletes or reorders local records and changes only their pending tags; the reported count equals the number of tags cleared.\<close>

theorem syncOfflineData_keeps_records:
  assumes "syncOfflineData nets now st = (st', res)" and "storage_writable (local_st st)"
  shows "map unflag (get_scores (local_st st')) = map unflag (get_scores (local_st st))
         \<and> (\<forall>c. res = Synced c \<longrightarrow>
               c + length (filter isLocal (get_scores (local_st st'))) = length (filter isLocal (get_scores (local_st st))))"
proof (cases "filter isLocal (get_scores (local_st st)) = [] \<or> \<not> has_client (remote_st st)")
  case True
  with assms(1) show ?thesis by (auto simp: syncOfflineData_def Let_def split: if_splits)
next
  case False
  obtain ys r' c' k' where sl: "sync_loop nets 0 now (get_scores (local_st st)) (remote_st st) = (ys, r', c', k')"
    by (metis prod_cases4)
  with assms(1) False have "st' = st\<lparr>local_st := set_scores ys (local_st st), remote_st := r'\<rparr>" and "res = Synced c'"
    by (simp_all add: syncOfflineData_def)
  with sync_loop_rows [OF sl] assms(2) show ?thesis by simp
qed

text \<open>C37 (functional): saveGameScore either writes one row to the remote table and leaves local storage alone (client present, call succeeded), or reports a local-only save whose local storage is exactly that of saveScoreToLocal.\<close>

theorem saveGameScore_outcome:
  assumes "saveGameScore e n now st = (st', out)"
  shows "(out = SavedRemote \<and> has_client (remote_st st) \<and> n = NetOk \<and> local_st st' = local_st st
          \<and> length (remote_rows (remote_st st')) = Suc (length (remote_rows (remote_st st))))
       \<or> (\<exists>err. out = SavedLocalOnly err \<and> local_st st' = fst (saveScoreToLocal e now (local_st st)))"
  using assms by (auto simp: saveGameScore_def Let_def remote_insert_def split: net.splits if_splits)

theorem getLeaderboard_fallback:
  assumes "getLeaderboard lvl limit n st = Board xs isLoc"
  shows "(isLoc \<longleftrightarrow> \<not> has_client (remote_st st) \<or> n \<noteq> NetOk)
         \<and> length xs \<le> limit \<and> sorted (map (\<lambda>r. - row_score r) xs)
         \<and> set xs \<subseteq> set (if isLoc then get_scores (local_st st) else remote_rows (remote_st st))
         \<and> (\<forall>l. lvl = Some l \<and> l \<noteq> 0 \<longrightarrow> (\<forall>r\<in>set xs. row_level r = l))"
proof -
  have "length (take limit ys) \<le> limit" for ys :: "score_row list" by simp
  moreover have "\<And>ys. sorted (map (\<lambda>r. - row_score r) (take limit (sort_desc row_score ys)))"
    by (intro sorted_desc_take sorted_sort_desc)
  moreover have "\<And>ys. set (take limit (sort_desc row_score (level_filter lvl ys))) \<subseteq> set ys"
    by (auto simp: level_filter_def dest: in_set_takeD split: option.splits if_splits)
  moreover have "\<And>ys l r. lvl = Some l \<Longrightarrow> l \<noteq> 0 \<Longrightarrow> r \<in> set (take limit (sort_desc row_score (level_filter lvl ys)))
                    \<Longrightarrow> row_level r = l"
    by (auto simp: level_filter_def dest: in_set_takeD)
  ultimately show ?thesis
    using assms by (auto simp: getLeaderboard_def getLocalLeaderboard_def split: if_splits)
qed

text \<open>C40 (error): When all three statistics queries answer with an error, getGameStats reports success with zero games and no statistics instead of falling back to the local data.\<close>

theorem getGameStats_error_no_fallback:
  "has_client (remote_st st) \<Longrightarrow>
   getGameStats NetFail NetFail NetFail st = (\<lparr>totalGames = 0, topScore = None, levelStats = Map.empty\<rparr>, False)"
  by (simp add: getGameStats_def calculateLevelStats_def)

theorem checkConnectionStatus_result:
  "checkConnectionStatus n st = (st', b) \<Longrightarrow> b \<longleftrightarrow> connectionStatus st' = Online"
  by (auto simp: checkConnectionStatus_def split: net.splits if_splits)


lemma sync_loop_inserts:
  assumes "\<forall>j. nets j = NetOk \<or> nets j = NetLostAck" and "sync_loop nets k now xs r = (ys, r', c, k')"
  shows "has_client r' = has_client r
         \<and> (\<exists>new. remote_rows r' = remote_rows r @ new \<and> map row_key new = map row_key (filter isLocal xs))"
  using assms(2)
proof (induction xs arbitrary: k r ys r' c k')
  case Nil
  then show ?case by simp
next
  case (Cons x xs)
  show ?case
  proof (cases "isLocal x")
    case False
    with Cons.prems obtain ys0 where "sync_loop nets k now xs r = (ys0, r', c, k')"
      by (auto split: prod.splits)
    with Cons.IH False show ?thesis by simp
  next
    case True
    let ?e = "\<lparr>entry_player = player_name x, entry_score = row_score x, entry_level = row_level x,
                entry_flips = cards_flipped x, entry_time = time_taken x\<rparr>"
    from assms(1) have nk: "nets k = NetOk \<or> nets k = NetLostAck" by blast
    from Cons.prems True nk obtain ys0 c0 where
      r: "sync_loop nets (Suc k) now xs (remote_insert ?e now r) = (ys0, r', c0, k')"
      by (auto split: prod.splits)
    from Cons.IH [OF r] obtain new where
      h: "has_client r' = has_client r" and
      n: "remote_rows r' = remote_rows r @ [last (remote_rows (remote_insert ?e now r))] @ new"
         "map row_key new = map row_key (filter isLocal xs)"
      by (auto simp: remote_insert_def)
    have "row_key (last (remote_rows (remote_insert ?e now r))) = row_key x"
      by (simp add: remote_insert_def row_key_def)
    with h n True show ?thesis by (intro conjI exI [of _ "[last (remote_rows (remote_insert ?e now r))] @ new"]) simp_all
  qed
qed

lemma sync_loop_lost:
  assumes "\<forall>j. nets j = NetLostAck" and "sync_loop nets k now xs r = (ys, r', c, k')"
  shows "ys = xs \<and> c = 0"
  using assms(2)
proof (induction xs arbitrary: k r ys r' c k')
  case Nil
  then show ?case by simp
next
  case (Cons x xs)
  then show ?case using assms(1) by (auto split: prod.splits if_splits)
qed

text \<open>C39 (safety): For every store with a client and writable storage: a synchronisation whose inserts all reach the table but lose their acknowledgement reports 0 records synced and leaves them pending, and a following synchronisation whose inserts succeed writes each of them again, so the remote table gains two copies of every pending record, in order, and none stays pending.\<close>

theorem sync_lost_ack_duplicates:
  assumes "has_client (remote_st st)" and "storage_writable (local_st st)"
    and "syncOfflineData (\<lambda>k. NetLostAck) t1 st = (st1, res1)"
    and "syncOfflineData (\<lambda>k. NetOk) t2 st1 = (st2, res2)"
  shows "res1 = Synced 0 \<and> res2 = Synced (length (filter isLocal (get_scores (local_st st))))
         \<and> filter isLocal (get_scores (local_st st2)) = []
         \<and> (\<exists>A B. remote_rows (remote_st st2) = remote_rows (remote_st st) @ A @ B
              \<and> map row_key A = map row_key (filter isLocal (get_scores (local_st st)))
              \<and> map row_key B = map row_key (filter isLocal (get_scores (local_st st))))"
proof (cases "filter isLocal (get_scores (local_st st)) = []")
  case True
  with assms(3,4) show ?thesis by (simp add: syncOfflineData_def)
next
  case False
  let ?xs = "get_scores (local_st st)"
  obtain ys1 r1 c1 k1 where l1: "sync_loop (\<lambda>k. NetLostAck) 0 t1 ?xs (remote_st st) = (ys1, r1, c1, k1)"
    by (metis prod.exhaust)
  have lost: "ys1 = ?xs" "c1 = 0" using sync_loop_lost [OF _ l1] by simp_all
  obtain A where A: "has_client r1" "remote_rows r1 = remote_rows (remote_st st) @ A"
      "map row_key A = map row_key (filter isLocal ?xs)"
    using sync_loop_inserts [OF _ l1] assms(1) by auto
  have st1: "st1 = st\<lparr>local_st := set_scores ?xs (local_st st), remote_st := r1\<rparr>" "res1 = Synced 0"
    using assms(1,3) False l1 lost by (simp_all add: syncOfflineData_def)
  have g1: "get_scores (local_st st1) = ?xs" and w1: "storage_writable (local_st st1)"
    using st1(1) assms(2) by simp_all
  obtain ys2 r2 c2 k2 where l2: "sync_loop (\<lambda>k. NetOk) 0 t2 ?xs r1 = (ys2, r2, c2, k2)"
    by (metis prod.exhaust)
  obtain B where B: "remote_rows r2 = remote_rows r1 @ B" "map row_key B = map row_key (filter isLocal ?xs)"
    using sync_loop_inserts [OF _ l2] by auto
  have ok: "\<forall>y\<in>set ys2. \<not> isLocal y" using sync_loop_all_ok [OF _ l2] by simp
  have c2: "c2 = length (filter isLocal ?xs)" using sync_loop_rows [OF l2] ok
    by (simp add: filter_empty_conv)
  have st2: "st2 = st1\<lparr>local_st := set_scores ys2 (local_st st1), remote_st := r2\<rparr>" "res2 = Synced c2"
    using assms(4) False l2 g1 A(1) st1(1) by (simp_all add: syncOfflineData_def)
  have "filter isLocal (get_scores (local_st st2)) = []"
    using st2(1) w1 ok by (simp add: filter_empty_conv)
  with st1(2) st2 c2 A B st1(1) show ?thesis by auto
qed
theorem scenario_offline_then_sync:
  "let (st0, out) = saveGameScore demo_entry NetFail 5 demo_store;
       (st1, res) = syncOfflineData (\<lambda>k. NetOk) 6 st0
   in out = SavedLocalOnly RemoteError
      \<and> local_row demo_entry 5 \<in> set (get_scores (local_st st0))
      \<and> res = Synced 1
      \<and> filter isLocal (get_scores (local_st st1)) = []
      \<and> map unflag (get_scores (local_st st1)) = [unflag (local_row demo_entry 5)]
      \<and> length (remote_rows (remote_st st1)) = 1"
  by (simp add: saveGameScore_def saveScoreToLocal_def syncOfflineData_def store_simps
      remote_insert_def local_row_def sort_desc_def unflag_def Let_def)

section \<open>Witnesses\<close>

theorem saveGameScore_outcome_witness: "\<exists>st'. saveGameScore demo_entry NetOk 5 demo_store = (st', SavedRemote)
   \<and> length (remote_rows (remote_st st')) = 1"
proof -
  obtain st' out where r: "saveGameScore demo_entry NetOk 5 demo_store = (st', out)" by fastforce
  then have "out = SavedRemote" by (simp add: saveGameScore_def)
  with saveGameScore_outcome [OF r] r show ?thesis by auto
qed

theorem getLeaderboard_fallback_witness: "getLeaderboard (Some 1) 10 NetFail demo_store = Board [] True
   \<and> (True \<longleftrightarrow> \<not> has_client (remote_st demo_store) \<or> NetFail \<noteq> NetOk) \<and> length ([] :: score_row list) \<le> 10"
proof -
  have r: "getLeaderboard (Some 1) 10 NetFail demo_store = Board [] True"
    by (simp add: getLeaderboard_def getLocalLeaderboard_def get_scores_def level_filter_def sort_desc_def)
  from getLeaderboard_fallback [OF r] r show ?thesis by simp
qed

theorem getGameStats_error_no_fallback_witness: "has_client (remote_st demo_store) \<and>
   getGameStats NetFail NetFail NetFail demo_store = (\<lparr>totalGames = 0, topScore = None, levelStats = Map.empty\<rparr>, False)"
  using getGameStats_error_no_fallback [of demo_store] by simp

theorem checkConnectionStatus_result_witness: "checkConnectionStatus NetOk demo_store = (demo_store, True) \<and> connectionStatus demo_store = Online"
proof -
  have r: "checkConnectionStatus NetOk demo_store = (demo_store, True)" by (simp add: checkConnectionStatus_def)
  from checkConnectionStatus_result [OF r] r show ?thesis by simp
qed


theorem saveScoreToLocal_top20_witness: "\<exists>ls'. storage_writable full_store \<and> saveScoreToLocal demo_entry 7 full_store = (ls', True)
   \<and> length (get_scores ls') \<le> 20"
proof -
  obtain ls' ok where r: "saveScoreToLocal demo_entry 7 full_store = (ls', ok)" by fastforce
  have w: "storage_writable full_store" by simp
  from saveScoreToLocal_top20 [OF w r] r show ?thesis by auto
qed

theorem saveScoreToLocal_evicts_pending_witness: "storage_writable full_store
   \<and> 20 \<le> length (filter (\<lambda>r. entry_score demo_entry < row_score r) (get_scores full_store))
   \<and> local_row demo_entry 7 \<notin> set (get_scores (fst (saveScoreToLocal demo_entry 7 full_store)))"
proof -
  have w: "storage_writable full_store" by simp
  have c: "20 \<le> length (filter (\<lambda>r. entry_score demo_entry < row_score r) (get_scores full_store))"
    by (simp add: store_simps)
  from saveScoreToLocal_evicts_pending [OF w c] w c show ?thesis by blast
qed

theorem syncOfflineData_idempotent_witness: "\<exists>st1. syncOfflineData (\<lambda>k. NetOk) 6 pending_store = (st1, Synced 1)
   \<and> (\<forall>j. (\<lambda>k. NetOk) j = NetOk) \<and> syncOfflineData (\<lambda>k. NetOk) 7 st1 = (st1, Synced 0)"
proof -
  obtain st1 where r: "syncOfflineData (\<lambda>k. NetOk) 6 pending_store = (st1, Synced 1)"
    by (simp add: syncOfflineData_def store_simps)
  have a: "\<forall>j. (\<lambda>k. NetOk) j = NetOk" by simp
  have w: "storage_writable (local_st pending_store)" by simp
  from syncOfflineData_idempotent [OF r a w] r show ?thesis by blast
qed

theorem syncOfflineData_keeps_records_witness: "\<exists>st'. syncOfflineData (\<lambda>k. NetFail) 6 pending_store = (st', Synced 0)
   \<and> map unflag (get_scores (local_st st')) = map unflag (get_scores (local_st pending_store))"
proof -
  obtain st' where r: "syncOfflineData (\<lambda>k. NetFail) 6 pending_store = (st', Synced 0)"
    by (simp add: syncOfflineData_def store_simps Let_def)
  have w: "storage_writable (local_st pending_store)" by simp
  from syncOfflineData_keeps_records [OF r w] r show ?thesis by blast
qed

theorem sync_lost_ack_duplicates_witness:
  "snd (syncOfflineData (\<lambda>k. NetLostAck) 6 pending_store) = Synced 0
   \<and> length (remote_rows (remote_st (fst (syncOfflineData (\<lambda>k. NetOk) 7
        (fst (syncOfflineData (\<lambda>k. NetLostAck) 6 pending_store)))))) = 2"
proof -
  let ?s1 = "fst (syncOfflineData (\<lambda>k. NetLostAck) 6 pending_store)"
  let ?r1 = "snd (syncOfflineData (\<lambda>k. NetLostAck) 6 pending_store)"
  have h: "has_client (remote_st pending_store)" "storage_writable (local_st pending_store)"
    "syncOfflineData (\<lambda>k. NetLostAck) 6 pending_store = (?s1, ?r1)"
    "syncOfflineData (\<lambda>k. NetOk) 7 ?s1 = (fst (syncOfflineData (\<lambda>k. NetOk) 7 ?s1), snd (syncOfflineData (\<lambda>k. NetOk) 7 ?s1))"
    by simp_all
  from sync_lost_ack_duplicates [OF h] show ?thesis
    by (auto simp: store_simps dest!: arg_cong [where f = length])
qed

end
