(* ===== verification/App.thy ===== *)
theory App
  imports Runtime Database
begin

text \<open>
  The application shell \<open>CardGameApp\<close> of \<open>src/scripts/main.js\<close>: the selected level
  and player name, the two settings it keeps in \<open>localStorage\<close> (keys
  \<open>cardgame_player_name\<close> and \<open>cardgame_settings\<close>), the game's event loop
  (\<open>Runtime\<close>) and the score store (\<open>Database\<close>). Game events are passed to the
  session; a score record the session hands over is saved at once through
  \<open>DatabaseAPI.saveGameScore\<close>, each call answered by the network. The five-minute
  connection monitor checks the connection and should synchronise pending records.
\<close>

section \<open>State and operations\<close>

record app =
  currentLevel :: nat
  currentPlayerName :: string
  saved_name :: "string option"
  saved_level :: "nat option"
  app_world :: world
  app_store :: store
  saved_progress :: "(game_state \<times> ms) option"
  isInitialized :: bool

text \<open>The constructor: level 1, no name, over a given store.\<close>

definition app0 :: "store \<Rightarrow> app" where
  "app0 st = \<lparr>currentLevel = 1, currentPlayerName = [], saved_name = None, saved_level = None,
               app_world = world0, app_store = st, saved_progress = None, isInitialized = False\<rparr>"

text \<open>
  \<open>storage.set\<close> writes a key unless \<open>localStorage\<close> refuses (quota, private mode),
  which the helper swallows; the same writability governs every key.
\<close>

definition store_writable :: "app \<Rightarrow> bool" where
  "store_writable a = storage_writable (local_st (app_store a))"

text \<open>
  \<open>startGame()\<close>: a non-blank trimmed name becomes the current name and is saved; the
  level is saved (\<open>lastPlayed\<close>, a date string, is not modelled); then the session starts
  with the current level and name.
\<close>

definition startGame :: "string \<Rightarrow> (nat \<Rightarrow> rat) \<Rightarrow> app \<Rightarrow> app" where
  "startGame input rnd a =
     (let playerName = js_trim input;
          a1 = (if playerName \<noteq> []
                then a\<lparr>currentPlayerName := playerName,
                       saved_name := (if store_writable a then Some playerName else saved_name a)\<rparr>
                else a);
          a2 = a1\<lparr>saved_level := (if store_writable a1 then Some (currentLevel a1) else saved_level a1)\<rparr>
      in a2\<lparr>app_world := step (app_world a2) (StartSession (currentLevel a2) (currentPlayerName a2) rnd)\<rparr>)"

text \<open>\<open>selectDifficulty(btn)\<close>: the level of the pressed button.\<close>

definition selectDifficulty :: "nat \<Rightarrow> app \<Rightarrow> app" where
  "selectDifficulty lvl a = a\<lparr>currentLevel := lvl\<rparr>"

text \<open>
  \<open>selectDifficultyByLevel(level)\<close>: the button whose \<open>data-level\<close> is the level is
  selected; the page has one difficulty button per level of \<open>GAME_LEVELS\<close>, and
  without a button nothing changes.
\<close>

definition selectDifficultyByLevel :: "nat \<Rightarrow> app \<Rightarrow> app" where
  "selectDifficultyByLevel l a = (if GAME_LEVELS l \<noteq> None then selectDifficulty l a else a)"

text \<open>
  \<open>loadSavedSettings()\<close>: a saved non-empty name is restored; a saved non-zero level
  is selected through \<open>selectDifficultyByLevel\<close>.
\<close>

definition loadSavedSettings :: "app \<Rightarrow> app" where
  "loadSavedSettings a =
     (let a1 = (case saved_name a of Some n \<Rightarrow> if n \<noteq> [] then a\<lparr>currentPlayerName := n\<rparr> else a | None \<Rightarrow> a)
      in case saved_level a1 of
           Some l \<Rightarrow> if l \<noteq> 0 then selectDifficultyByLevel l a1 else a1
         | None \<Rightarrow> a1)"

text \<open>Saving the records the session handed over, the \<open>k\<close>-th call answered by \<open>nets k\<close>.\<close>

fun deliver :: "(nat \<Rightarrow> net) \<Rightarrow> nat \<Rightarrow> ms \<Rightarrow> score_entry list \<Rightarrow> store \<Rightarrow> store" where
  "deliver nets k t [] st = st"
| "deliver nets k t (e # es) st = deliver nets (Suc k) t es (fst (saveGameScore e (nets k) t st))"

text \<open>
  A game event (a click, the pause, reset and hint buttons and keys, which
  \<open>CardGameApp\<close> forwards to the session, a timeout or a clock tick), followed by the
  saves of the records it handed over.
\<close>

definition game_event :: "event \<Rightarrow> (nat \<Rightarrow> net) \<Rightarrow> app \<Rightarrow> app" where
  "game_event ev nets a =
     (let w' = step (app_world a) ev;
          fresh = drop (length (submitted (app_world a))) (submitted w')
      in a\<lparr>app_world := w', app_store := deliver nets 0 (now w') fresh (app_store a)\<rparr>)"

text \<open>
  One run of the \<open>setInterval\<close> callback of \<open>startConnectionMonitoring()\<close>: the
  status check, answered by \<open>n\<close>, and the synchronisation if the check succeeded while
  \<open>getConnectionStatus()\<close> reads \<open>'offline'\<close>. The result tells whether
  \<open>syncOfflineData\<close> ran.
\<close>

definition monitor_tick :: "net \<Rightarrow> (nat \<Rightarrow> net) \<Rightarrow> app \<Rightarrow> app \<times> bool" where
  "monitor_tick n nets a =
     (let (st1, isOnline) = checkConnectionStatus n (app_store a)
      in if isOnline \<and> getConnectionStatus st1 = Offline
         then (a\<lparr>app_store := fst (syncOfflineData nets (now (app_world a)) st1)\<rparr>, True)
         else (a\<lparr>app_store := st1\<rparr>, False))"

section \<open>Start-up, leaderboard and page life cycle\<close>

text \<open>
  \<open>initializeSupabase()\<close> of \<open>config.js\<close>: the client exists when the Supabase library
  is loaded and \<open>createClient(url, anonKey)\<close> accepts the settings; the library
  rejects an empty URL or key.
\<close>

definition initializeSupabase :: "bool \<Rightarrow> string \<times> string \<Rightarrow> bool" where
  "initializeSupabase lib_loaded cfg = (lib_loaded \<and> fst cfg \<noteq> [] \<and> snd cfg \<noteq> [])"

text \<open>
  \<open>initializeApp()\<close> with the result of \<open>getSupabaseConfig()\<close> at the load of
  \<open>config.js\<close> and whether the Supabase library is loaded. When the configuration is
  missing, \<open>config.js\<close> throws at load, \<open>window.GameConfig\<close> is never set, and the
  first call of \<open>initializeApp\<close> throws into its \<open>catch\<close>: nothing is initialised.
  Otherwise the client is created or not, the saved settings are loaded and the
  connection monitor is started.
\<close>

definition initializeApp :: "error + (string \<times> string) \<Rightarrow> bool \<Rightarrow> app \<Rightarrow> app" where
  "initializeApp cfg lib_loaded a =
     (case cfg of
        Inl e \<Rightarrow> a
      | Inr c \<Rightarrow>
          (let ok = initializeSupabase lib_loaded c;
               a1 = a\<lparr>app_store := (app_store a)\<lparr>remote_st := (remote_st (app_store a))\<lparr>has_client := ok\<rparr>\<rparr>\<rparr>
           in (loadSavedSettings a1)\<lparr>isInitialized := True\<rparr>))"

text \<open>
  One row of \<open>renderLeaderboard(scores, isLocal)\<close> (\<open>is_local\<close> in the model): rank, medal class, name, score,
  formatted time and moves. The level name and the date the method also computes are
  not shown.
\<close>

record lb_item =
  lb_rank :: nat
  lb_class :: string
  lb_name :: string
  lb_score :: int
  lb_time :: string
  lb_moves :: nat

datatype lb_view = LbEmpty | LbRows bool "lb_item list"

definition rank_class :: "nat \<Rightarrow> string" where
  "rank_class rank = (if rank = 1 then ''gold'' else if rank = 2 then ''silver'' else if rank = 3 then ''bronze'' else [])"

definition renderLeaderboard :: "score_row list \<Rightarrow> bool \<Rightarrow> lb_view" where
  "renderLeaderboard scores is_local =
     (if scores = [] then LbEmpty
      else LbRows is_local
             (map (\<lambda>(index, score). \<lparr>lb_rank = Suc index, lb_class = rank_class (Suc index),
                                      lb_name = player_name score, lb_score = row_score score,
                                      lb_time = formatTime (time_taken score), lb_moves = cards_flipped score\<rparr>)
                  (zip [0..<length scores] scores)))"

text \<open>
  \<open>loadLeaderboard(level)\<close> after \<open>showLeaderboard()\<close> (\<open>'all'\<close>, here \<open>None\<close>) or a
  filter button (its level): the 50 best records, the query answered by \<open>n\<close>. The
  store's leaderboard always succeeds (remote, or the local fallback), so the error
  branch of the method is not reached.
\<close>

definition loadLeaderboard :: "nat option \<Rightarrow> net \<Rightarrow> app \<Rightarrow> lb_view" where
  "loadLeaderboard lvl n a =
     (case getLeaderboard lvl 50 n (app_store a) of Board xs local \<Rightarrow> renderLeaderboard xs local)"

text \<open>
  \<open>handlePageUnload()\<close> at time \<open>current_time\<close>: a running session is saved under
  \<open>cardgame_progress\<close> with the time of saving.
\<close>

definition handlePageUnload :: "ms \<Rightarrow> app \<Rightarrow> app" where
  "handlePageUnload current_time a =
     (let g = gs (app_world a)
      in if isPlaying g \<and> \<not> isGameOver g \<and> store_writable a
         then a\<lparr>saved_progress := Some (g, current_time)\<rparr> else a)"

text \<open>
  \<open>restoreSavedGame()\<close> at time \<open>current_time\<close>, with the answer to the dialog and the
  current content of the name field: a running session saved less than an hour ago is
  "restored" by starting a new game; the saved progress is then removed.
\<close>

definition restoreSavedGame :: "ms \<Rightarrow> bool \<Rightarrow> string \<Rightarrow> (nat \<Rightarrow> rat) \<Rightarrow> app \<Rightarrow> app" where
  "restoreSavedGame current_time confirm input rnd a =
     (case saved_progress a of
        None \<Rightarrow> a
      | Some (g, savedAt) \<Rightarrow>
          (if isPlaying g \<and> \<not> isGameOver g
           then (let a1 = (if int current_time - int savedAt < 3600000 \<and> confirm then startGame input rnd a else a)
                 in a1\<lparr>saved_progress := (if store_writable a1 then None else saved_progress a1)\<rparr>)
           else a))"

text \<open>
  Loading the page: \<open>config.js\<close> starts without a client (\<open>let supabase = null\<close>),
  \<open>database.js\<close> checks the connection as it loads, and on \<open>DOMContentLoaded\<close>
  \<open>main.js\<close> constructs \<open>CardGameApp\<close>, whose constructor runs \<open>initializeApp\<close>.
\<close>

definition page_load :: "net \<Rightarrow> error + (string \<times> string) \<Rightarrow> bool \<Rightarrow> store \<Rightarrow> app" where
  "page_load n cfg lib_loaded st =
     initializeApp cfg lib_loaded
       (app0 (database_load n (st\<lparr>remote_st := (remote_st st)\<lparr>has_client := False\<rparr>\<rparr>)))"

text \<open>The key \<open>handlePageUnload\<close> and \<open>restoreSavedGame\<close> keep the game progress under.\<close>

definition PROGRESS_KEY :: string where
  "PROGRESS_KEY = ''cardgame_progress''"

section \<open>Properties of the application shell\<close>

lemma app_store_loadSavedSettings [simp]: "app_store (loadSavedSettings a) = app_store a"
  by (simp add: loadSavedSettings_def selectDifficultyByLevel_def selectDifficulty_def Let_def split: option.split)

lemma storage_keys_distinct:
  "distinct [PLAYER_NAME STORAGE_KEYS, BEST_SCORES STORAGE_KEYS, GAME_SETTINGS STORAGE_KEYS,
             SOUND_ENABLED STORAGE_KEYS, PROGRESS_KEY]"
  by (simp add: STORAGE_KEYS_def PROGRESS_KEY_def)

text \<open>
  The check \<open>database.js\<close> runs as it loads comes before \<open>main.js\<close> creates the
  client, so after the page load the connection status is offline whatever the
  network answers, and the client exists exactly when the configuration was found
  and the library accepted it.
\<close>

lemma page_load_offline:
  "connectionStatus (app_store (page_load n cfg lib_loaded st)) = Offline
   \<and> checkDatabaseConnection (app_store (page_load n cfg lib_loaded st))
       = (\<exists>c. cfg = Inr c \<and> initializeSupabase lib_loaded c)"
  by (cases cfg) (simp_all add: page_load_def initializeApp_def database_load_def checkConnectionStatus_def
                    checkDatabaseConnection_def app0_def Let_def)

text \<open>C10 (safety): The five-minute connection monitor never synchronises: checkConnectionStatus sets the status to online before the monitor tests for offline, so the only effect of a monitor run is the status check, and records saved offline stay pending.\<close>

theorem monitor_never_syncs:
  "monitor_tick n nets a = (a\<lparr>app_store := fst (checkConnectionStatus n (app_store a))\<rparr>, False)"
proof -
  obtain st1 b where c: "checkConnectionStatus n (app_store a) = (st1, b)" by (cases "checkConnectionStatus n (app_store a)")
  have "b \<longleftrightarrow> connectionStatus st1 = Online" by (rule checkConnectionStatus_result [OF c])
  then show ?thesis by (auto simp: monitor_tick_def c getConnectionStatus_def)
qed

text \<open>C28 (functional): Starting a game with a blank or all-space name keeps the previous player name (saved or typed earlier) and the saved name; the session is played under that name, or anonymously if there was none.\<close>

theorem startGame_blank_name:
  assumes "js_trim input = []"
  shows "currentPlayerName (startGame input rnd a) = currentPlayerName a
         \<and> saved_name (startGame input rnd a) = saved_name a
         \<and> playerName (gs (app_world (startGame input rnd a))) =
             (if currentPlayerName a = [] then anonymous else currentPlayerName a)"
  using assms
  by (simp add: startGame_def run_handler_simps startNewGame_def resetGameState_def Let_def
           split: option.split sum.split)

theorem startGame_name:
  assumes "js_trim input \<noteq> []"
  shows "playerName (gs (app_world (startGame input rnd a))) = js_trim input
         \<and> currentPlayerName (startGame input rnd a) = js_trim input
         \<and> (store_writable a \<longrightarrow> saved_name (startGame input rnd a) = Some (js_trim input))"
  using assms
  by (simp add: startGame_def run_handler_simps startNewGame_def resetGameState_def Let_def store_writable_def
           split: option.split sum.split)

theorem settings_roundtrip:
  assumes "store_writable a" and "js_trim input \<noteq> []" and "GAME_LEVELS (currentLevel a) \<noteq> None"
  shows "let b = loadSavedSettings (a0\<lparr>saved_name := saved_name (startGame input rnd a),
                                       saved_level := saved_level (startGame input rnd a)\<rparr>)
         in currentPlayerName b = js_trim input \<and> currentLevel b = currentLevel a"
proof -
  have "currentLevel a \<noteq> 0" using assms(3) by (auto simp: GAME_LEVELS_def split: if_splits)
  then show ?thesis
    using assms by (simp add: startGame_def loadSavedSettings_def selectDifficultyByLevel_def selectDifficulty_def store_writable_def Let_def)
qed

lemma getLeaderboard_sorted:
  assumes "getLeaderboard lvl limit n st = Board xs b"
  shows "length xs \<le> limit \<and> sorted (map (\<lambda>r. - row_score r) xs)"
proof -
  have "\<And>ys. sorted (map (\<lambda>r. - row_score r) (take limit (sort_desc row_score ys)))"
    by (rule sorted_desc_take) (rule sorted_sort_desc)
  then show ?thesis
    using assms by (auto simp: getLeaderboard_def getLocalLeaderboard_def split: if_splits)
qed

lemma renderLeaderboard_rows:
  assumes "renderLeaderboard xs b = LbRows loc items"
  shows "loc = b \<and> length items = length xs \<and> map lb_rank items = [1..<Suc (length xs)]
         \<and> map lb_class items = map rank_class [1..<Suc (length xs)]
         \<and> map lb_score items = map row_score xs"
proof -
  have items: "items = map (\<lambda>(index, score). \<lparr>lb_rank = Suc index, lb_class = rank_class (Suc index),
                 lb_name = player_name score, lb_score = row_score score,
                 lb_time = formatTime (time_taken score), lb_moves = cards_flipped score\<rparr>)
               (zip [0..<length xs] xs)" and loc: "loc = b"
    using assms by (auto simp: renderLeaderboard_def split: if_splits)
  have "map lb_rank items = map Suc [0..<length xs]"
    by (rule nth_equalityI) (simp_all add: items)
  then have "map lb_rank items = [1..<Suc (length xs)]" by (simp add: map_Suc_upt)
  moreover have "map lb_class items = map rank_class (map Suc [0..<length xs])"
    by (rule nth_equalityI) (simp_all add: items)
  then have "map lb_class items = map rank_class [1..<Suc (length xs)]" by (simp only: map_Suc_upt) simp
  moreover have "map lb_score items = map row_score xs"
    by (rule nth_equalityI) (simp_all add: items)
  ultimately show ?thesis using loc by (simp add: items)
qed

text \<open>C34 (functional): A leaderboard the app shows has at most 50 rows, ranked 1, 2, ... with gold, silver and bronze on the first three, in non-increasing score order.\<close>

theorem loadLeaderboard_ranked:
  assumes "loadLeaderboard lvl n a = LbRows loc items"
  shows "length items \<le> 50 \<and> map lb_rank items = [1..<Suc (length items)]
         \<and> map lb_class items = map rank_class [1..<Suc (length items)]
         \<and> sorted (map (\<lambda>i. - lb_score i) items)"
proof -
  obtain xs b where g: "getLeaderboard lvl 50 n (app_store a) = Board xs b"
    by (cases "getLeaderboard lvl 50 n (app_store a)") auto
  with assms have r: "renderLeaderboard xs b = LbRows loc items" by (simp add: loadLeaderboard_def)
  note rows = renderLeaderboard_rows [OF r] and srt = getLeaderboard_sorted [OF g]
  have "map (\<lambda>i. - lb_score i) items = map uminus (map lb_score items)" by simp
  also have "\<dots> = map uminus (map row_score xs)" using rows by simp
  also have "\<dots> = map (\<lambda>r. - row_score r) xs" by simp
  finally have "map (\<lambda>i. - lb_score i) items = map (\<lambda>r. - row_score r) xs" .
  with rows srt show ?thesis by simp
qed

text \<open>C35 (functional): Restoring a game saved at page unload, confirmed within the hour, starts a fresh session (no move, nothing matched) and deletes the saved progress: the saved board, moves and score are discarded.\<close>

theorem restoreSavedGame_fresh:
  assumes "saved_progress a = Some (g, savedAt)" and "isPlaying g" and "\<not> isGameOver g"
    and "int t - int savedAt < 3600000" and "store_writable a"
  shows "saved_progress (restoreSavedGame t True input rnd a) = None
         \<and> app_world (restoreSavedGame t True input rnd a) = app_world (startGame input rnd a)
         \<and> moves (gs (app_world (restoreSavedGame t True input rnd a))) = 0
         \<and> matchedCards (gs (app_world (restoreSavedGame t True input rnd a))) = []"
proof -
  have sw: "store_writable (startGame input rnd a) = store_writable a"
    by (simp add: startGame_def store_writable_def Let_def)
  have "moves (gs (app_world (startGame input rnd a))) = 0 \<and> matchedCards (gs (app_world (startGame input rnd a))) = []"
    by (simp add: startGame_def run_handler_simps startNewGame_def resetGameState_def initial_state_def Let_def
             split: option.split sum.split)
  with assms sw show ?thesis by (simp add: restoreSavedGame_def)
qed

section \<open>Witnesses\<close>

theorem startGame_blank_name_witness:
  "js_trim ''  '' = []
   \<and> currentPlayerName (startGame ''  '' (\<lambda>_. 0) ((app0 demo_store)\<lparr>currentPlayerName := ''kim''\<rparr>)) = ''kim''
   \<and> playerName (gs (app_world (startGame ''  '' (\<lambda>_. 0) ((app0 demo_store)\<lparr>currentPlayerName := ''kim''\<rparr>)))) = ''kim''"
proof -
  have t: "js_trim ''  '' = []" by (simp add: js_trim_eval)
  from startGame_blank_name [OF t, of "\<lambda>_. 0" "(app0 demo_store)\<lparr>currentPlayerName := ''kim''\<rparr>"] t
  show ?thesis by simp
qed

theorem startGame_name_witness:
  "js_trim '' lee '' = ''lee'' \<and> store_writable (app0 demo_store)
   \<and> playerName (gs (app_world (startGame '' lee '' (\<lambda>_. 0) (app0 demo_store)))) = ''lee''
   \<and> saved_name (startGame '' lee '' (\<lambda>_. 0) (app0 demo_store)) = Some ''lee''"
proof -
  have t: "js_trim '' lee '' = ''lee''" by (simp add: js_trim_eval)
  have wr: "store_writable (app0 demo_store)" by (simp add: store_writable_def app0_def)
  from startGame_name [of "'' lee ''" "\<lambda>_. 0" "app0 demo_store"] t wr show ?thesis by simp
qed

theorem settings_roundtrip_witness:
  "store_writable (app0 demo_store) \<and> js_trim ''lee'' \<noteq> [] \<and> GAME_LEVELS (currentLevel (app0 demo_store)) \<noteq> None
   \<and> currentPlayerName (loadSavedSettings ((app0 demo_store)\<lparr>saved_name := saved_name (startGame ''lee'' (\<lambda>_. 0) (app0 demo_store)),
        saved_level := saved_level (startGame ''lee'' (\<lambda>_. 0) (app0 demo_store))\<rparr>)) = ''lee''"
proof -
  have h: "store_writable (app0 demo_store)" "js_trim ''lee'' \<noteq> []" "GAME_LEVELS (currentLevel (app0 demo_store)) \<noteq> None"
    by (simp_all add: store_writable_def app0_def js_trim_eval GAME_LEVELS_def)
  have t: "js_trim ''lee'' = ''lee''" by (simp add: js_trim_eval)
  from settings_roundtrip [OF h, of "\<lambda>_. 0" "app0 demo_store"] h t show ?thesis by (simp add: Let_def)
qed

theorem loadLeaderboard_ranked_witness:
  "\<exists>items. loadLeaderboard None NetOk (app0 (demo_store\<lparr>remote_st :=
        remote_insert demo_entry 5 (remote_insert (demo_entry\<lparr>entry_score := 500\<rparr>) 3 (remote_st demo_store))\<rparr>))
       = LbRows False items
     \<and> length items \<le> 50 \<and> map lb_rank items = [1..<Suc (length items)]
     \<and> sorted (map (\<lambda>i. - lb_score i) items)"
proof -
  let ?a = "app0 (demo_store\<lparr>remote_st :=
        remote_insert demo_entry 5 (remote_insert (demo_entry\<lparr>entry_score := 500\<rparr>) 3 (remote_st demo_store))\<rparr>)"
  have "\<exists>items. loadLeaderboard None NetOk ?a = LbRows False items"
    by (simp add: loadLeaderboard_def getLeaderboard_def app0_def remote_insert_def level_filter_def
                  sort_desc_def renderLeaderboard_def)
  then obtain items where e: "loadLeaderboard None NetOk ?a = LbRows False items" by blast
  from loadLeaderboard_ranked [OF e] e show ?thesis by blast
qed

theorem restoreSavedGame_fresh_witness:
  "saved_progress ((app0 demo_store)\<lparr>saved_progress := Some (demo_game\<lparr>moves := 5\<rparr>, 0)\<rparr>) = Some (demo_game\<lparr>moves := 5\<rparr>, 0)
   \<and> saved_progress (restoreSavedGame 1000 True ''kim'' (\<lambda>_. 0)
        ((app0 demo_store)\<lparr>saved_progress := Some (demo_game\<lparr>moves := 5\<rparr>, 0)\<rparr>)) = None
   \<and> moves (gs (app_world (restoreSavedGame 1000 True ''kim'' (\<lambda>_. 0)
        ((app0 demo_store)\<lparr>saved_progress := Some (demo_game\<lparr>moves := 5\<rparr>, 0)\<rparr>)))) = 0"
proof -
  let ?a = "(app0 demo_store)\<lparr>saved_progress := Some (demo_game\<lparr>moves := 5\<rparr>, 0)\<rparr>"
  have h: "saved_progress ?a = Some (demo_game\<lparr>moves := 5\<rparr>, 0)" "isPlaying (demo_game\<lparr>moves := 5\<rparr>)"
      "\<not> isGameOver (demo_game\<lparr>moves := 5\<rparr>)" "int 1000 - int 0 < 3600000" "store_writable ?a"
    by (simp_all add: initial_state_def store_writable_def app0_def)
  from restoreSavedGame_fresh [OF h, of "''kim''" "\<lambda>_. 0"] h(1) show ?thesis by blast
qed

end
