(* ===== verification/EnvLoader.thy ===== *)
theory EnvLoader
  imports Prelude
begin

text \<open>
  \<open>src/scripts/env-loader.js\<close> and the configuration look-up of
  \<open>src/scripts/config.js\<close>: the \<open>.env\<close> parser \<open>parseEnvFile\<close>, the loader that
  fills \<open>window.ENV\<close> on a development host, and \<open>getSupabaseConfig\<close>, which prefers
  the build-time configuration, then \<open>window.ENV\<close>, and throws otherwise. The
  JavaScript object \<open>vars\<close> is a map from keys to values; a repeated key keeps its last
  value. The fetch of \<open>/.env\<close> is an argument: the file's text, or \<open>None\<close> when the
  request fails or is not \<open>ok\<close>.
\<close>

section \<open>Parsing\<close>

text \<open>\<open>String.prototype.split\<close> with a one-character separator: never empty.\<close>

fun split_on :: "char \<Rightarrow> string \<Rightarrow> string list" where
  "split_on c [] = [[]]"
| "split_on c (x # xs) = (let r = split_on c xs in if x = c then [] # r else (x # hd r) # tl r)"

text \<open>\<open>Array.prototype.join\<close> with a one-character separator.\<close>

fun join_with :: "char \<Rightarrow> string list \<Rightarrow> string" where
  "join_with c [] = []"
| "join_with c [s] = s"
| "join_with c (s # ss) = s @ c # join_with c ss"

text \<open>One line of the \<open>forEach\<close> callback.\<close>

definition parse_line :: "(string \<rightharpoonup> string) \<Rightarrow> string \<Rightarrow> (string \<rightharpoonup> string)" where
  "parse_line vars line0 =
     (let line = js_trim line0
      in if line \<noteq> [] \<and> \<not> (take 1 line = ''#'')
         then (let parts = split_on (CHR ''='') line; key = hd parts; valueParts = tl parts
               in if key \<noteq> [] \<and> valueParts \<noteq> []
                  then vars(js_trim key \<mapsto> js_trim (join_with (CHR ''='') valueParts))
                  else vars)
         else vars)"

definition parseEnvFile :: "string \<Rightarrow> (string \<rightharpoonup> string)" where
  "parseEnvFile envText = foldl parse_line Map.empty (split_on (CHR ''\<newline>'') envText)"

section \<open>Loading and looking up the configuration\<close>

record env =
  SUPABASE_URL :: string
  SUPABASE_ANON_KEY :: string

definition is_dev_host :: "string \<Rightarrow> bool" where
  "is_dev_host h \<longleftrightarrow> h = ''localhost'' \<or> h = ''127.0.0.1''"

text \<open>\<open>v || ''\<close> for a property that may be missing.\<close>

definition or_empty :: "string option \<Rightarrow> string" where
  "or_empty v = (case v of None \<Rightarrow> [] | Some s \<Rightarrow> s)"

text \<open>
  \<open>loadEnvironmentVariables()\<close> with the current \<open>window.ENV\<close>, the host name and the
  answer to \<open>fetch('/.env')\<close>. \<open>envVars.X || ''\<close> is the value or the empty string.
\<close>

definition loadEnvironmentVariables :: "env option \<Rightarrow> string \<Rightarrow> string option \<Rightarrow> env option" where
  "loadEnvironmentVariables ENV host response =
     (if (case ENV of Some e \<Rightarrow> SUPABASE_URL e \<noteq> [] | None \<Rightarrow> False) then ENV
      else if is_dev_host host
      then (case response of
              None \<Rightarrow> ENV
            | Some envText \<Rightarrow>
                (let envVars = parseEnvFile envText
                 in Some \<lparr>SUPABASE_URL = or_empty (envVars ''VITE_SUPABASE_URL''),
                          SUPABASE_ANON_KEY = or_empty (envVars ''VITE_SUPABASE_ANON_KEY'')\<rparr>))
      else ENV)"

text \<open>
  \<open>getSupabaseConfig()\<close> with \<open>window.SUPABASE_CONFIG\<close> (generated by the build) and
  \<open>window.ENV\<close>: the pair of URL and anonymous key, or the configuration error.
\<close>

definition getSupabaseConfig :: "(string \<times> string) option \<Rightarrow> env option \<Rightarrow> error + (string \<times> string)" where
  "getSupabaseConfig built ENV =
     (case built of
        Some c \<Rightarrow> Inr c
      | None \<Rightarrow> (case ENV of
                   Some e \<Rightarrow> if SUPABASE_URL e \<noteq> [] then Inr (SUPABASE_URL e, SUPABASE_ANON_KEY e) else Inl NoClient
                 | None \<Rightarrow> Inl NoClient))"

section \<open>Well-formed files\<close>

text \<open>
  A key-value pair that a \<open>.env\<close> line \<open>KEY=value\<close> writes unambiguously: the key is
  non-empty, without surrounding white space, \<open>=\<close> or line break, and does not start a
  comment; the value has no surrounding white space and no line break (it may contain
  \<open>=\<close>, as base64 keys do). \<open>render_env\<close> writes the pairs one per line.
\<close>

definition valid_key :: "string \<Rightarrow> bool" where
  "valid_key k \<longleftrightarrow> k \<noteq> [] \<and> trimmed k \<and> CHR ''='' \<notin> set k \<and> CHR ''\<newline>'' \<notin> set k \<and> hd k \<noteq> CHR ''#''"

definition valid_entry :: "string \<times> string \<Rightarrow> bool" where
  "valid_entry kv \<longleftrightarrow> (case kv of (k, v) \<Rightarrow> valid_key k \<and> trimmed v \<and> CHR ''\<newline>'' \<notin> set v)"

definition render_env :: "(string \<times> string) list \<Rightarrow> string" where
  "render_env kvs = join_with (CHR ''\<newline>'') (map (\<lambda>(k, v). k @ CHR ''='' # v) kvs)"

section \<open>Properties of the parser\<close>

lemma split_on_nonempty [simp]: "split_on c s \<noteq> []"
  by (induction s) (auto simp: Let_def)

lemma join_with_Cons_Cons: "join_with c ((x # h) # t) = x # join_with c (h # t)"
  by (cases t) simp_all

lemma join_split_on: "join_with c (split_on c s) = s"
proof (induction s)
  case Nil
  then show ?case by simp
next
  case (Cons x xs)
  obtain h t where r: "split_on c xs = h # t" by (cases "split_on c xs") auto
  show ?case
    using Cons r by (simp add: Let_def join_with_Cons_Cons)
qed

lemma split_on_no_sep: "c \<notin> set s \<Longrightarrow> split_on c s = [s]"
  by (induction s) (auto simp: Let_def)

lemma split_on_append_sep: "c \<notin> set s \<Longrightarrow> split_on c (s @ c # t) = s # split_on c t"
  by (induction s) (auto simp: Let_def)

lemma split_join_with:
  "ss \<noteq> [] \<Longrightarrow> \<forall>s\<in>set ss. c \<notin> set s \<Longrightarrow> split_on c (join_with c ss) = ss"
proof (induction c ss rule: join_with.induct)
  case (3 c s v va)
  then show ?case by (simp add: split_on_append_sep)
qed (simp_all add: split_on_no_sep)

lemma parse_line_entry:
  assumes "valid_entry (k, v)"
  shows "parse_line m (k @ CHR ''='' # v) = m(k \<mapsto> v)"
proof -
  have k: "k \<noteq> []" "trimmed k" "CHR ''='' \<notin> set k" "hd k \<noteq> CHR ''#''" and v: "trimmed v"
    using assms by (auto simp: valid_entry_def valid_key_def)
  have "\<forall>w\<in>set js_ws. of_char (CHR ''='') \<notin> set w" by (simp add: js_ws_bytes)
  with k(2) v have "trimmed (k @ CHR ''='' # v)" by (rule trimmed_sep)
  then have line: "js_trim (k @ CHR ''='' # v) = k @ CHR ''='' # v" by (rule js_trim_trimmed)
  have hd: "take 1 (k @ CHR ''='' # v) \<noteq> ''#''" using k(1,4) by (cases k) auto
  show ?thesis
    using k v line hd
    by (simp add: parse_line_def split_on_append_sep js_trim_trimmed join_split_on)
qed

lemma foldl_parse_entries:
  "\<forall>kv\<in>set kvs. valid_entry kv \<Longrightarrow>
   foldl parse_line m (map (\<lambda>(k, v). k @ CHR ''='' # v) kvs) = m ++ map_of (rev kvs)"
proof (induction kvs arbitrary: m)
  case Nil
  then show ?case by simp
next
  case (Cons kv kvs)
  obtain k v where kv: "kv = (k, v)" by (cases kv)
  have "parse_line m (k @ CHR ''='' # v) = m(k \<mapsto> v)" using Cons.prems kv by (simp add: parse_line_entry)
  with Cons kv show ?case by (simp add: map_add_upd_left map_of_append)
qed



section \<open>Witnesses\<close>



end
