(* ===== verification/Lifecycle.thy ===== *)
theory Lifecycle
  imports Runtime
begin

text \<open>
  The session life cycle of the spec, \<open>Idle \<rightarrow> Playing \<rightleftharpoons> Paused \<rightarrow> Complete\<close>
  (\<open>Complete\<close> terminal until a new session replaces it), as an abstract labelled
  transition system \<open>spec_step\<close>, and its simulation by the event loop of
  \<open>Runtime\<close>. \<open>status_of\<close> abstracts a session to its status from the flags
  \<open>isPlaying\<close>, \<open>isPaused\<close> and \<open>isGameOver\<close> of \<open>game.js\<close>; a combination of
  flags the spec has no status for maps to \<open>None\<close>. \<open>label_of\<close> names the spec
  transition an event stands for: a start or confirmed reset is \<open>Start\<close>, the pause
  button \<open>Toggle\<close>, a timeout \<open>Timeout\<close>. The spec edge \<open>Paused \<rightarrow> Complete\<close> is
  taken when the completion timeout fires during a pause.

  The starts are those of a level of \<open>GAME_LEVELS\<close> (\<open>valid_event\<close>): \<open>main.js\<close>
  passes \<open>currentLevel\<close>, which only \<open>selectDifficulty\<close> sets, from the
  \<open>data-level\<close> of a difficulty button. The simulation (\<open>lifecycle_step\<close>) is proved
  over the invariant \<open>inv_lifecycle\<close>: the level is known, the flags have a
  status, and an idle world has no board and no pending timer.
\<close>

datatype status = Idle | Playing | Paused | Complete

definition status_of :: "game_state \<Rightarrow> status option" where
  "status_of s =
     (if isGameOver s then (if isPlaying s then None else Some Complete)
      else if isPlaying s then Some (if isPaused s then Paused else Playing)
      else if isPaused s then None else Some Idle)"

datatype label = Start | Toggle | Timeout | Other

fun label_of :: "event \<Rightarrow> label" where
  "label_of (StartSession lvl name rnd) = Start"
| "label_of (ResetSession confirm rnd) = (if confirm then Start else Other)"
| "label_of PauseToggle = Toggle"
| "label_of Fire = Timeout"
| "label_of _ = Other"

inductive spec_step :: "status \<Rightarrow> label \<Rightarrow> status \<Rightarrow> bool" where
  start: "spec_step q Start Playing"
| pause: "spec_step Playing Toggle Paused"
| resume: "spec_step Paused Toggle Playing"
| finish: "spec_step Playing Timeout Complete"
| finish_paused: "spec_step Paused Timeout Complete"

fun valid_event :: "event \<Rightarrow> bool" where
  "valid_event (StartSession lvl name rnd) = (GAME_LEVELS lvl \<noteq> None)"
| "valid_event _ = True"

inductive reachable_valid :: "world \<Rightarrow> bool" where
  init: "reachable_valid world0"
| step: "reachable_valid w \<Longrightarrow> valid_event ev \<Longrightarrow> reachable_valid (step w ev)"

definition inv_lifecycle :: "world \<Rightarrow> bool" where
  "inv_lifecycle w \<longleftrightarrow> GAME_LEVELS (level (gs w)) \<noteq> None \<and> status_of (gs w) \<noteq> None
     \<and> (status_of (gs w) = Some Idle \<longrightarrow> pending w = [] \<and> cards (gs w) = [])"

definition same_flags :: "game_state \<Rightarrow> game_state \<Rightarrow> bool" where
  "same_flags s' s \<longleftrightarrow> isPlaying s' = isPlaying s \<and> isPaused s' = isPaused s
     \<and> isGameOver s' = isGameOver s \<and> level s' = level s"

inductive_cases spec_step_CompleteE: "spec_step Complete l q"
inductive_cases spec_step_IdleE: "spec_step q l Idle"

lemma same_flags_status: "same_flags s' s \<Longrightarrow> status_of s' = status_of s"
  by (simp add: same_flags_def status_of_def)

lemma generateRandomCards_known:
  "GAME_LEVELS lvl \<noteq> None \<Longrightarrow> \<exists>d. generateRandomCards rnd lvl ''animals'' = Inr d"
  by (auto simp: generateRandomCards_def CARD_DATA_def Let_def)

lemma startNewGame_known:
  assumes "GAME_LEVELS lvl \<noteq> None"
  shows "status_of (fst (outcome_state (startNewGame lvl name t rnd s))) = Some Playing
         \<and> level (fst (outcome_state (startNewGame lvl name t rnd s))) = lvl"
proof -
  obtain d where "generateRandomCards rnd lvl ''animals'' = Inr d"
    using generateRandomCards_known [OF assms] by blast
  with assms show ?thesis
    by (auto simp: startNewGame_def resetGameState_def initial_state_def status_of_def Let_def)
qed

lemma handleCardClick_flags: "same_flags (fst (outcome_state (handleCardClick i s))) s"
  by (simp add: handleCardClick_def same_flags_def flipCard_def set_card_def Let_def split: option.split)

lemma handleCardClick_no_cards: "cards s = [] \<Longrightarrow> outcome_state (handleCardClick i s) = (s, [])"
  by (simp add: handleCardClick_def)

lemma showHint_flags: "same_flags (fst (outcome_state (showHint r s))) s"
proof (cases "showHint r s")
  case (Done x)
  obtain s' p where "x = (s', p)" by (cases x)
  with Done showHint_Done [of r s s' p] show ?thesis by (auto simp: same_flags_def)
next
  case (Thrown e x)
  then show ?thesis using showHint_Thrown [OF Thrown] by (simp add: same_flags_def)
qed

lemma checkMatch_same_flags: "same_flags (fst (outcome_state (checkMatch s))) s"
  using checkMatch_flags [of s]
  by (simp add: same_flags_def checkMatch_def handleMatch_def handleMismatch_def addScore_def set_card_def
                Let_def split: list.split prod.split)

lemma fire_flags:
  "same_flags (gs (step w Fire)) (gs w)
   \<or> (isGameOver (gs (step w Fire)) \<and> \<not> isPlaying (gs (step w Fire)) \<and> level (gs (step w Fire)) = level (gs w))"
proof (cases "pending w = []")
  case False
  obtain due t cb where tm: "pending w ! earliest (pending w) = (due, t, cb)" by (metis prod.exhaust)
  show ?thesis
    using False checkMatch_same_flags [of "gs w"]
    by (cases cb) (simp_all add: tm Let_def run_timer_def run_handler_simps unflip_callback_def
                    unflipCard_def set_card_def same_flags_def handleGameComplete_def split: sum.split)
qed (simp add: same_flags_def)

lemma run_handler_unchanged: "outcome_state r = (gs w, []) \<Longrightarrow> run_handler r w = w"
  by (simp add: run_handler_def)

lemma start_simulates:
  assumes "GAME_LEVELS lvl \<noteq> None"
    and w': "gs w' = fst (outcome_state (startNewGame lvl name t rnd s))"
  shows "inv_lifecycle w' \<and> status_of (gs w') = Some Playing"
  using startNewGame_known [OF assms(1), of name t rnd s] assms by (simp add: inv_lifecycle_def)

lemma same_flags_simulates:
  assumes inv: "inv_lifecycle w" and sf: "same_flags (gs w') (gs w)"
    and idle: "status_of (gs w) = Some Idle \<Longrightarrow> pending w' = [] \<and> cards (gs w') = []"
  shows "inv_lifecycle w' \<and> status_of (gs w') = status_of (gs w)"
  using inv idle same_flags_status [OF sf] sf by (simp add: inv_lifecycle_def same_flags_def)

lemma lifecycle_step:
  assumes inv: "inv_lifecycle w" and ev: "valid_event ev"
  shows "inv_lifecycle (step w ev) \<and> (\<exists>q q'. status_of (gs w) = Some q \<and> status_of (gs (step w ev)) = Some q'
           \<and> (q' = q \<or> spec_step q (label_of ev) q'))"
proof -
  obtain q where q: "status_of (gs w) = Some q" using inv by (auto simp: inv_lifecycle_def)
  have lv: "GAME_LEVELS (level (gs w)) \<noteq> None" using inv by (simp add: inv_lifecycle_def)
  have idle: "q = Idle \<Longrightarrow> pending w = [] \<and> cards (gs w) = []" using inv q by (simp add: inv_lifecycle_def)
  have "inv_lifecycle (step w ev) \<and> (status_of (gs (step w ev)) = Some q \<or> spec_step q (label_of ev) (the (status_of (gs (step w ev)))))"
  proof (cases ev)
    case (StartSession lvl name rnd)
    then show ?thesis
      using start_simulates [of lvl "step w ev"] ev by (simp add: run_handler_simps spec_step.start)
  next
    case (ResetSession confirm rnd)
    show ?thesis
    proof (cases confirm)
      case True
      have "gs (step w ev) = fst (outcome_state (startNewGame (level (gs w)) (playerName (gs w)) (now w) rnd (gs w)))"
        using ResetSession True by (simp add: run_handler_simps resetGame_def)
      with start_simulates [OF lv] ResetSession True show ?thesis by (simp add: spec_step.start)
    qed (use ResetSession inv q in simp)
  next
    case (Click i)
    show ?thesis
    proof (cases "q = Idle")
      case True
      then have "step w ev = w"
        using idle Click by (simp add: handleCardClick_no_cards run_handler_unchanged)
      with inv q show ?thesis by simp
    next
      case False
      then show ?thesis
        using same_flags_simulates [OF inv, of "step w ev"] Click q handleCardClick_flags [of i "gs w"]
        by (simp add: run_handler_simps)
    qed
  next
    case PauseToggle
    then show ?thesis
      using inv q by (cases q) (auto simp: togglePause_def status_of_def inv_lifecycle_def intro: spec_step.intros
                                      split: if_splits)
  next
    case (Hint r)
    then show ?thesis
      using same_flags_simulates [OF inv, of "step w ev"] q idle showHint_flags [of r "gs w"] showHint_board [of r "gs w"]
      by simp
  next
    case Tick
    have "same_flags (gs (step w ev)) (gs w)" "cards (gs (step w ev)) = cards (gs w)" "pending (step w ev) = pending w"
      using Tick by (simp_all add: clock_tick_def same_flags_def)
    then show ?thesis
      using same_flags_simulates [OF inv, of "step w ev"] q idle by simp
  next
    case Fire
    show ?thesis
    proof (cases "q = Idle")
      case True
      with idle Fire inv q show ?thesis by simp
    next
      case False
      consider "same_flags (gs (step w Fire)) (gs w)"
        | "isGameOver (gs (step w Fire))" "\<not> isPlaying (gs (step w Fire))" "level (gs (step w Fire)) = level (gs w)"
        using fire_flags [of w] by blast
      then show ?thesis
      proof cases
        case 1
        then show ?thesis
          using same_flags_simulates [OF inv, of "step w Fire"] Fire q False by simp
      next
        case 2
        then show ?thesis
          using Fire q False lv by (cases q) (auto simp: status_of_def inv_lifecycle_def intro: spec_step.intros)
      qed
    qed
  next
    case (Wait d)
    then show ?thesis using inv q by (simp add: inv_lifecycle_def status_of_def)
  qed
  moreover have "inv_lifecycle (step w ev) \<Longrightarrow> \<exists>q'. status_of (gs (step w ev)) = Some q'"
    by (auto simp: inv_lifecycle_def)
  ultimately show ?thesis using q by force
qed

lemma inv_lifecycle0: "inv_lifecycle world0"
  by (simp add: inv_lifecycle_def world0_def initial_state_def status_of_def GAME_LEVELS_def)

lemma reachable_valid_inv: "reachable_valid w \<Longrightarrow> inv_lifecycle w"
  by (induction rule: reachable_valid.induct) (simp_all add: inv_lifecycle0 lifecycle_step)


text \<open>C2 (refinement): The event loop refines the session life cycle of the spec (Idle, Playing, Paused, Complete): from any state reached by starts of levels of the table and any other events, each event keeps the abstract status or makes a transition of the spec with the event label (a start or confirmed reset to Playing, the pause button between Playing and Paused, a timeout from Playing or Paused to Complete), and the flags never leave the four statuses.\<close>

theorem session_refines_spec:
  assumes "reachable_valid w" and "valid_event ev"
  shows "\<exists>q q'. status_of (gs w) = Some q \<and> status_of (gs (step w ev)) = Some q'
           \<and> (q' = q \<or> spec_step q (label_of ev) q')"
  using lifecycle_step [OF reachable_valid_inv [OF assms(1)] assms(2)] by blast

lemma complete_left_only_by_start:
  assumes "reachable_valid w" and "valid_event ev" and "status_of (gs w) = Some Complete"
    and "label_of ev \<noteq> Start"
  shows "status_of (gs (step w ev)) = Some Complete"
  using lifecycle_step [OF reachable_valid_inv [OF assms(1)] assms(2)] assms(3,4)
  by (auto elim: spec_step_CompleteE)

lemma never_back_to_idle:
  assumes "reachable_valid w" and "valid_event ev" and "status_of (gs w) \<noteq> Some Idle"
  shows "status_of (gs (step w ev)) \<noteq> Some Idle"
  using lifecycle_step [OF reachable_valid_inv [OF assms(1)] assms(2)] assms(3)
  by (auto elim: spec_step_IdleE)

section \<open>Witnesses\<close>

theorem session_refines_spec_witness:
  "reachable_valid (step world0 (StartSession 1 ''kim'' (\<lambda>_. 0))) \<and> valid_event PauseToggle
   \<and> (\<exists>q q'. status_of (gs (step world0 (StartSession 1 ''kim'' (\<lambda>_. 0)))) = Some q
        \<and> status_of (gs (step (step world0 (StartSession 1 ''kim'' (\<lambda>_. 0))) PauseToggle)) = Some q'
        \<and> (q' = q \<or> spec_step q (label_of PauseToggle) q'))"
proof -
  have v: "valid_event (StartSession 1 ''kim'' (\<lambda>_. 0))" by (simp add: GAME_LEVELS_def)
  have r: "reachable_valid (step world0 (StartSession 1 ''kim'' (\<lambda>_. 0)))"
    by (rule reachable_valid.step [OF reachable_valid.init v])
  have p: "valid_event PauseToggle" by simp
  from session_refines_spec [OF r p] r p show ?thesis by blast
qed

end
