(* ===== verification/View.thy ===== *)
theory View
  imports Lifecycle
begin

text \<open>
  The display of a session (\<open>src/scripts/game.js\<close>): the timer, move, score and
  hint elements that \<open>updateTimer\<close>, \<open>updateUI\<close> and \<open>addScore\<close> write, the pause
  overlay and pause button label that \<open>togglePause\<close> sets, and the figures of
  \<open>showGameCompleteModal\<close>. A \<open>hud\<close> holds what the elements show; it lives as long
  as the page, across sessions. \<open>view_step\<close> runs an event of \<open>Runtime\<close> and then the
  display writes its handler made; which writes a handler makes is read off the
  branch of the code it took.
\<close>

record hud =
  timer_text :: string
  timer_warning :: bool
  moves_text :: string
  score_text :: string
  hint_disabled :: bool
  hint_text :: string
  overlay_hidden :: bool
  pause_text :: string

text \<open>
  \<open>updateTimer()\<close>: the clock text, then the warning class added when
  \<open>timeSpent > timeLimit * 0.9\<close>. The products \<open>120 * 0.9\<close>, \<open>180 * 0.9\<close> and
  \<open>240 * 0.9\<close> are exact in binary floating point (108, 162, 216), so the test is
  \<open>9 * timeLimit < 10 * timeSpent\<close>. The class is only ever added. An unknown level
  makes the read of \<open>timeLimit\<close> throw after the text was written.
\<close>

definition updateTimer :: "game_state \<Rightarrow> hud \<Rightarrow> hud js_outcome" where
  "updateTimer s h =
     (let h1 = h\<lparr>timer_text := formatTime (timeSpent s)\<rparr>
      in case GAME_LEVELS (level s) of
           None \<Rightarrow> Thrown TypeError h1
         | Some cfg \<Rightarrow> Done (if 9 * timeLimit cfg < 10 * timeSpent s then h1\<lparr>timer_warning := True\<rparr> else h1))"

text \<open>\<open>updateUI()\<close>: moves, score, and the hint button, disabled when no hint is left.\<close>

definition updateUI :: "game_state \<Rightarrow> hud \<Rightarrow> hud" where
  "updateUI s h =
     h\<lparr>moves_text := nat_str (moves s), score_text := int_str (score s),
       hint_disabled := (hintCount s \<le> 0),
       hint_text := ustr [0x1F4A1, 32, 0xD78C, 0xD2B8, 32, 40] @ nat_str (hintCount s) @ '')''\<rparr>"

text \<open>The score text \<open>addScore(points)\<close> writes (the flash of its CSS class is not kept).\<close>

definition addScore_view :: "game_state \<Rightarrow> hud \<Rightarrow> hud" where
  "addScore_view s h = h\<lparr>score_text := int_str (score s)\<rparr>"

text \<open>The two labels of the pause button.\<close>

definition resume_label :: string where
  "resume_label = ustr [0x25B6, 0xFE0F, 32, 0xC7AC, 0xAC1C]"

definition pause_label :: string where
  "pause_label = ustr [0x23F8, 0xFE0F, 32, 0xC77C, 0xC2DC, 0xC815, 0xC9C0]"

text \<open>
  The display part of \<open>togglePause()\<close>, given the state before the toggle: the
  same early return, then the overlay shown with the resume label when the session
  becomes paused, hidden with the pause label when it resumes.
\<close>

definition togglePause_view :: "game_state \<Rightarrow> hud \<Rightarrow> hud" where
  "togglePause_view s h =
     (if \<not> isPlaying s \<or> isGameOver s then h
      else if \<not> isPaused s then h\<lparr>overlay_hidden := False, pause_text := resume_label\<rparr>
      else h\<lparr>overlay_hidden := True, pause_text := pause_label\<rparr>)"

text \<open>
  The pause part of \<open>hideAllModals()\<close> of \<open>main.js\<close> (Escape, or a click beside a
  modal): the overlay is hidden, whatever the session; the button label stays. It is a
  page event of \<open>main.js\<close> that reaches no handler of \<open>game.js\<close>, so it is not an
  event of \<open>view_step\<close>; the lemma \<open>escape_while_paused\<close> applies it to a display
  between two events.
\<close>

definition hideAllModals_view :: "hud \<Rightarrow> hud" where
  "hideAllModals_view h = h\<lparr>overlay_hidden := True\<rparr>"

text \<open>\<open>showGameCompleteModal()\<close>: the final score, time and moves it shows.\<close>

record complete_modal =
  finalScore_text :: string
  finalTime_text :: string
  finalMoves_text :: string

definition showGameCompleteModal :: "game_state \<Rightarrow> complete_modal" where
  "showGameCompleteModal s =
     \<lparr>finalScore_text = int_str (score s), finalTime_text = formatTime (timeSpent s),
      finalMoves_text = nat_str (moves s)\<rparr>"

text \<open>
  \<open>playSound(type)\<close>: unless the stored sound switch is the JSON value \<open>false\<close>, a
  beep of 0.1 s at the frequency of the sound type (400 Hz for an unknown type); a
  failure of the audio API is swallowed. The result is the frequency of the beep
  played, if any.
\<close>

definition sound_frequency :: "string \<Rightarrow> nat" where
  "sound_frequency t =
     (if t = ''flip'' then 400 else if t = ''match'' then 600 else if t = ''mismatch'' then 200
      else if t = ''victory'' then 800 else if t = ''hint'' then 500 else 400)"

definition playSound :: "bool \<Rightarrow> bool \<Rightarrow> string \<Rightarrow> nat option" where
  "playSound stored_false audio_ok t = (if stored_false \<or> \<not> audio_ok then None else Some (sound_frequency t))"

text \<open>The branch of \<open>checkMatch\<close> that calls \<open>handleMatch\<close> and so \<open>addScore\<close>.\<close>

definition match_pending :: "game_state \<Rightarrow> bool" where
  "match_pending s =
     (case flippedCards s of c1 # c2 # _ \<Rightarrow> card_value (cards s ! c1) = card_value (cards s ! c2) | _ \<Rightarrow> False)"

text \<open>
  The display writes of the handler an event ran, from world \<open>w\<close> to world \<open>w'\<close>:
  \<open>startNewGame\<close> ends with \<open>updateUI\<close> (game.js line 58, not reached when it throws);
  \<open>handleCardClick\<close> calls it on the second flip (line 188), which is the branch that
  schedules \<open>checkMatch\<close>; \<open>showHint\<close> calls it when it shows a pair (line 456); the
  clock callback of \<open>startGameTimer\<close> calls \<open>updateTimer\<close> unless paused (lines 318 to
  324); a \<open>checkMatch\<close> timeout on a matching pair writes the score through
  \<open>addScore\<close> (line 241); the pause button runs the display part of \<open>togglePause\<close>. Nothing resets the timer
  warning or the pause display when a new session starts.
\<close>

fun hud_after :: "world \<Rightarrow> event \<Rightarrow> world \<Rightarrow> hud \<Rightarrow> hud" where
  "hud_after w (StartSession lvl name rnd) w' h =
     (case startNewGame lvl name (now w) rnd (gs w) of Done _ \<Rightarrow> updateUI (gs w') h | Thrown _ _ \<Rightarrow> h)"
| "hud_after w (ResetSession confirm rnd) w' h =
     (if confirm then (case resetGame True (now w) rnd (gs w) of Done _ \<Rightarrow> updateUI (gs w') h | Thrown _ _ \<Rightarrow> h)
      else h)"
| "hud_after w (Click i) w' h = (if snd (outcome_state (handleCardClick i (gs w))) \<noteq> [] then updateUI (gs w') h else h)"
| "hud_after w PauseToggle w' h = togglePause_view (gs w) h"
| "hud_after w (Hint r) w' h = (if snd (outcome_state (showHint r (gs w))) \<noteq> None then updateUI (gs w') h else h)"
| "hud_after w Tick w' h = (if ticking w \<and> \<not> isPaused (gs w) then outcome_state (updateTimer (gs w') h) else h)"
| "hud_after w Fire w' h =
     (if pending w \<noteq> [] \<and> snd (snd (pending w ! earliest (pending w))) = CheckMatch \<and> match_pending (gs w)
      then addScore_view (gs w') h else h)"
| "hud_after w (Wait d) w' h = h"

definition view_step :: "world \<times> hud \<Rightarrow> event \<Rightarrow> world \<times> hud" where
  "view_step wh ev = (case wh of (w, h) \<Rightarrow> (step w ev, hud_after w ev (step w ev) h))"

definition view_run :: "world \<times> hud \<Rightarrow> event list \<Rightarrow> world \<times> hud" where
  "view_run wh evs = foldl view_step wh evs"

text \<open>The pause display agrees with the session: overlay and label tell whether it is paused.\<close>

definition pause_view_ok :: "game_state \<Rightarrow> hud \<Rightarrow> bool" where
  "pause_view_ok s h \<longleftrightarrow> overlay_hidden h = (\<not> isPaused s)
     \<and> pause_text h = (if isPaused s then resume_label else pause_label)"

text \<open>
  \<open>createCardElement(card, index)\<close>: a \<open>div\<close> whose \<open>data-card-id\<close> is the card's id,
  with the value on its back face and a click listener calling
  \<open>handleCardClick(card.id)\<close>, the event \<open>Click (card_id card)\<close> of the loop.
  \<open>renderCards()\<close>: one element per card, in board order, each made to appear
  \<open>index * 50\<close> ms later.
\<close>

record card_element =
  elem_card_id :: nat
  elem_back :: string
  elem_click :: event

definition createCardElement :: "card \<Rightarrow> nat \<Rightarrow> card_element" where
  "createCardElement c index = \<lparr>elem_card_id = card_id c, elem_back = card_value c, elem_click = Click (card_id c)\<rparr>"

definition renderCards :: "game_state \<Rightarrow> (card_element \<times> ms) list" where
  "renderCards s =
     map (\<lambda>(index, c). (createCardElement c index, index * 50)) (zip [0..<length (cards s)] (cards s))"

text \<open>
  \<open>createMatchEffect\<close> around the centre \<open>(cx, cy)\<close> of a matched card: six sparkles,
  each offset by \<open>(Math.random() - 0.5) * 40\<close> pixels along each axis (and removed
  after one second). \<open>createBackgroundParticles()\<close>: nothing without the particle
  container, otherwise fifty particles replacing the old ones, each with a horizontal
  position in percent, an animation delay and an animation duration in seconds. The
  draws of \<open>Math.random()\<close> are the stream \<open>rnd\<close>, in call order.
\<close>

definition createMatchEffect :: "(nat \<Rightarrow> rat) \<Rightarrow> rat \<Rightarrow> rat \<Rightarrow> (rat \<times> rat) list" where
  "createMatchEffect rnd cx cy =
     map (\<lambda>i. (cx + (rnd (2 * i) - 1/2) * 40, cy + (rnd (2 * i + 1) - 1/2) * 40)) [0..<6]"

definition createBackgroundParticles :: "(nat \<Rightarrow> rat) \<Rightarrow> bool \<Rightarrow> (rat \<times> rat \<times> rat) list option" where
  "createBackgroundParticles rnd has_container =
     (if \<not> has_container then None
      else Some (map (\<lambda>i. (rnd (3 * i) * 100, rnd (3 * i + 1) * 15, 15 + rnd (3 * i + 2) * 10)) [0..<50]))"

text \<open>A display that already shows the timer warning, for the examples.\<close>

definition warned_hud :: hud where
  "warned_hud = \<lparr>timer_text = [], timer_warning = True, moves_text = [], score_text = [],
     hint_disabled = False, hint_text = [], overlay_hidden = True, pause_text = pause_label\<rparr>"

lemma updateTimer_warning: "timer_warning h \<Longrightarrow> timer_warning (outcome_state (updateTimer s h))"
  by (simp add: updateTimer_def Let_def split: option.split)

lemma hud_after_warning: "timer_warning h \<Longrightarrow> timer_warning (hud_after w ev w' h)"
  by (cases ev) (simp_all add: updateTimer_warning updateUI_def addScore_view_def togglePause_view_def
                   split: js_outcome.split)

text \<open>C22 (safety): Once the timer shows the time-limit warning it keeps it for the life of the page: after any sequence of events, new sessions included, the warning class is still set, also while the current session is far below 90 percent of its time limit.\<close>

theorem timer_warning_persists:
  assumes "timer_warning (snd wh)"
  shows "timer_warning (snd (view_run wh evs))"
  using assms
proof (induction evs arbitrary: wh)
  case (Cons ev evs)
  obtain w h where wh: "wh = (w, h)" by (cases wh)
  have "timer_warning (snd (view_step wh ev))" using Cons.prems hud_after_warning by (simp add: wh view_step_def)
  with Cons.IH show ?case by (simp add: view_run_def)
qed (simp add: view_run_def)


lemma fire_isPaused: "isPaused (gs (step w Fire)) = isPaused (gs w)"
proof (cases "pending w = []")
  case False
  obtain due t cb where tm: "pending w ! earliest (pending w) = (due, t, cb)" by (metis prod.exhaust)
  show ?thesis
    using False checkMatch_flags [of "gs w"]
    by (cases cb) (simp_all add: tm Let_def run_timer_def run_handler_simps unflip_callback_def
                    unflipCard_def set_card_def handleGameComplete_def split: sum.split)
qed simp

lemma startNewGame_unpaused: "\<not> isPaused (fst (outcome_state (startNewGame lvl name t rnd s)))"
  by (simp add: startNewGame_def resetGameState_def initial_state_def Let_def split: option.split sum.split)

lemma hud_after_overlay:
  "ev \<noteq> PauseToggle \<Longrightarrow> overlay_hidden (hud_after w ev w' h) = overlay_hidden h
     \<and> pause_text (hud_after w ev w' h) = pause_text h"
  by (cases ev) (simp_all add: updateTimer_def updateUI_def addScore_view_def Let_def
                   split: js_outcome.split option.split)

lemma pause_view_step:
  assumes ok: "pause_view_ok (gs w) h" and st: "is_start ev \<Longrightarrow> \<not> isPaused (gs w)"
  shows "pause_view_ok (gs (step w ev)) (hud_after w ev (step w ev) h)"
proof (cases "ev = PauseToggle")
  case True
  with ok show ?thesis by (auto simp: pause_view_ok_def togglePause_view_def togglePause_def)
next
  case False
  have "isPaused (gs (step w ev)) = isPaused (gs w)" if "\<not> is_start ev"
  proof (cases ev)
    case (Click i)
    then show ?thesis using handleCardClick_flags [of i "gs w"] by (simp add: run_handler_simps same_flags_def)
  next
    case (Hint r)
    then show ?thesis using showHint_flags [of r "gs w"] by (simp add: same_flags_def)
  next
    case Fire
    show ?thesis unfolding Fire by (rule fire_isPaused)
  qed (use that False in \<open>simp_all add: clock_tick_def\<close>)
  moreover have "\<not> isPaused (gs (step w ev))" if "is_start ev"
    using that startNewGame_unpaused
    by (cases ev) (simp_all add: run_handler_simps resetGame_def)
  ultimately have "isPaused (gs (step w ev)) = isPaused (gs w)" using st by blast
  with ok hud_after_overlay [OF False] show ?thesis by (simp add: pause_view_ok_def)
qed

text \<open>C23 (safety): A confirmed reset while paused starts an unpaused running session but leaves the pause overlay shown and the pause button labelled resume, so the display no longer matches the session, and pressing that button pauses the new session.\<close>

theorem reset_while_paused_desync:
  assumes "isPaused (gs w)" and "pause_view_ok (gs w) h" and "GAME_LEVELS (level (gs w)) \<noteq> None"
  shows "let (w1, h1) = view_step (w, h) (ResetSession True rnd); (w2, h2) = view_step (w1, h1) PauseToggle
         in isPlaying (gs w1) \<and> \<not> isPaused (gs w1) \<and> \<not> overlay_hidden h1 \<and> pause_text h1 = resume_label
            \<and> \<not> pause_view_ok (gs w1) h1 \<and> isPaused (gs w2) \<and> \<not> overlay_hidden h2 \<and> pause_text h2 = resume_label"
proof -
  define w1 where "w1 = step w (ResetSession True rnd)"
  define h1 where "h1 = hud_after w (ResetSession True rnd) w1 h"
  have g1: "gs w1 = fst (outcome_state (startNewGame (level (gs w)) (playerName (gs w)) (now w) rnd (gs w)))"
    by (simp add: w1_def run_handler_simps resetGame_def)
  have s1: "isPlaying (gs w1) \<and> \<not> isPaused (gs w1) \<and> \<not> isGameOver (gs w1)"
    using startNewGame_known [OF assms(3), of "playerName (gs w)" "now w" rnd "gs w"] g1
    unfolding status_of_def by (auto split: if_splits)
  have v1: "\<not> overlay_hidden h1 \<and> pause_text h1 = resume_label"
    using hud_after_overlay [of "ResetSession True rnd" w w1 h] assms(1,2) by (simp add: h1_def pause_view_ok_def)
  have "view_step (w, h) (ResetSession True rnd) = (w1, h1)" by (simp add: view_step_def w1_def h1_def)
  moreover have "isPaused (gs (step w1 PauseToggle)) \<and> hud_after w1 PauseToggle (step w1 PauseToggle) h1
                   = h1\<lparr>overlay_hidden := False, pause_text := resume_label\<rparr>"
    using s1 by (simp add: togglePause_def togglePause_view_def)
  ultimately show ?thesis using s1 v1 by (simp add: view_step_def pause_view_ok_def)
qed


lemma GAME_LEVELS_timeLimit_dvd: "GAME_LEVELS l = Some cfg \<Longrightarrow> 10 dvd timeLimit cfg"
  by (auto simp: GAME_LEVELS_def split: if_splits)

lemma warning_threshold:
  assumes "10 dvd (L :: nat)"
  shows "(9 * L < 10 * (d div 1000)) = (1000 * (9 * L div 10 + 1) \<le> d)"
proof -
  obtain m where L: "L = 10 * m" using assms by blast
  have "(9 * L < 10 * (d div 1000)) = (9 * m + 1 \<le> d div 1000)" by (simp add: L Suc_le_eq)
  also have "\<dots> = ((9 * m + 1) * 1000 \<le> d)" by (rule less_eq_div_iff_mult_less_eq) simp
  finally show ?thesis by (simp add: L mult.commute)
qed

text \<open>
  The clock tick of a running session at level \<open>cfg\<close> shows the elapsed whole
  seconds and turns the warning on from the first tick at which
  \<open>0.9 * timeLimit + 1\<close> seconds have passed (109, 163 or 217 s).
\<close>

lemma tick_timer_view:
  assumes "GAME_LEVELS (level (gs w)) = Some cfg" and "ticking w" and "\<not> isPaused (gs w)"
    and "startTime (gs w) = Some t0"
  shows "snd (view_step (w, h) Tick) =
           h\<lparr>timer_text := formatTime ((now w - t0) div 1000),
             timer_warning := (timer_warning h \<or> 1000 * (9 * timeLimit cfg div 10 + 1) \<le> now w - t0)\<rparr>"
  using assms warning_threshold [OF GAME_LEVELS_timeLimit_dvd [OF assms(1)], of "now w - t0"]
  by (simp add: view_step_def updateTimer_def clock_tick_def Let_def)

lemma complete_modal_shows_final:
  assumes "handleGameComplete s = Done (s', eff)"
  shows "\<exists>v. calculateScore (timeSpent s) (moves s) (level s) = Inr v
           \<and> showGameCompleteModal s' = \<lparr>finalScore_text = int_str v, finalTime_text = formatTime (timeSpent s),
                                          finalMoves_text = nat_str (moves s)\<rparr>"
  using assms by (auto simp: handleGameComplete_def showGameCompleteModal_def Let_def split: sum.splits)

lemma playSound_distinct:
  "distinct (map (\<lambda>t. playSound False True t) [''flip'', ''match'', ''mismatch'', ''victory'', ''hint''])
   \<and> (\<forall>t. playSound True True t = None)"
  by (simp add: playSound_def sound_frequency_def)

lemma renderCards_click:
  assumes "ids_ok s" and "k < length (cards s)"
  shows "elem_click (fst (renderCards s ! k)) = Click k \<and> elem_card_id (fst (renderCards s ! k)) = k
         \<and> snd (renderCards s ! k) = k * 50"
  using assms by (simp add: renderCards_def createCardElement_def ids_ok_def)

lemma renderCards_deck: "map (\<lambda>e. elem_back (fst e)) (renderCards (s\<lparr>cards := make_cards vs\<rparr>)) = vs"
proof -
  have "map (\<lambda>e. elem_back (fst e)) (renderCards s') = map card_value (cards s')" for s'
    by (simp add: renderCards_def createCardElement_def split_def comp_def map_snd_upt_zip)
  moreover have "map card_value (make_cards vs) = vs"
    using map_snd_upt_zip [of "\<lambda>v. v" vs] by (simp add: make_cards_def split_def comp_def)
  ultimately show ?thesis by simp
qed

lemma random_offset_bounds:
  assumes "random_ok rnd"
  shows "- 20 \<le> (rnd k - 1/2) * 40 \<and> (rnd k - 1/2) * 40 < 20"
  using assms by (simp add: random_ok_def)

lemma createMatchEffect_bounds:
  assumes "random_ok rnd" and "p \<in> set (createMatchEffect rnd cx cy)"
  shows "cx - 20 \<le> fst p \<and> fst p < cx + 20 \<and> cy - 20 \<le> snd p \<and> snd p < cy + 20"
proof -
  obtain i where p: "p = (cx + (rnd (2 * i) - 1/2) * 40, cy + (rnd (2 * i + 1) - 1/2) * 40)"
    using assms(2) by (auto simp: createMatchEffect_def)
  show ?thesis
    using random_offset_bounds [OF assms(1), of "2 * i"] random_offset_bounds [OF assms(1), of "2 * i + 1"]
    by (simp add: p)
qed

lemma createBackgroundParticles_bounds:
  assumes "random_ok rnd" and "createBackgroundParticles rnd True = Some ps" and "q \<in> set ps"
  shows "0 \<le> fst q \<and> fst q < 100 \<and> 0 \<le> fst (snd q) \<and> fst (snd q) < 15
         \<and> 15 \<le> snd (snd q) \<and> snd (snd q) < 25"
proof -
  obtain i where q: "q = (rnd (3 * i) * 100, rnd (3 * i + 1) * 15, 15 + rnd (3 * i + 2) * 10)"
    using assms(2,3) by (auto simp: createBackgroundParticles_def)
  have "0 \<le> rnd k \<and> rnd k < 1" for k using assms(1) by (simp add: random_ok_def)
  then show ?thesis by (simp add: q)
qed

text \<open>
  Escape during a pause hides the overlay of a session that stays paused; the resume
  label stays, and the next press of the button resumes the session with overlay and
  label in agreement again.
\<close>

lemma escape_while_paused:
  assumes "isPlaying s" and "isPaused s" and "\<not> isGameOver s" and "pause_view_ok s h"
  shows "\<not> pause_view_ok s (hideAllModals_view h) \<and> pause_text (hideAllModals_view h) = resume_label
         \<and> pause_view_ok (togglePause s) (togglePause_view s (hideAllModals_view h))"
  using assms by (simp add: pause_view_ok_def hideAllModals_view_def togglePause_def togglePause_view_def)

section \<open>Witnesses\<close>

theorem timer_warning_persists_witness:
  "timer_warning (snd (world0, warned_hud))
   \<and> timer_warning (snd (view_run (world0, warned_hud) [StartSession 1 ''kim'' (\<lambda>_. 0), Tick, PauseToggle]))"
proof -
  have h: "timer_warning (snd (world0, warned_hud))" by (simp add: warned_hud_def)
  from timer_warning_persists [OF h] h show ?thesis by blast
qed

theorem reset_while_paused_desync_witness:
  "isPaused (gs (world0\<lparr>gs := initial_state\<lparr>isPlaying := True, isPaused := True\<rparr>\<rparr>))
   \<and> pause_view_ok (gs (world0\<lparr>gs := initial_state\<lparr>isPlaying := True, isPaused := True\<rparr>\<rparr>))
       (warned_hud\<lparr>overlay_hidden := False, pause_text := resume_label\<rparr>)
   \<and> GAME_LEVELS (level (gs (world0\<lparr>gs := initial_state\<lparr>isPlaying := True, isPaused := True\<rparr>\<rparr>))) \<noteq> None
   \<and> (let (w1, h1) = view_step (world0\<lparr>gs := initial_state\<lparr>isPlaying := True, isPaused := True\<rparr>\<rparr>,
                                  warned_hud\<lparr>overlay_hidden := False, pause_text := resume_label\<rparr>)
                                 (ResetSession True (\<lambda>_. 0));
           (w2, h2) = view_step (w1, h1) PauseToggle
       in isPlaying (gs w1) \<and> \<not> isPaused (gs w1) \<and> \<not> overlay_hidden h1 \<and> pause_text h1 = resume_label
          \<and> \<not> pause_view_ok (gs w1) h1 \<and> isPaused (gs w2) \<and> \<not> overlay_hidden h2 \<and> pause_text h2 = resume_label)"
proof -
  have a: "isPaused (gs (world0\<lparr>gs := initial_state\<lparr>isPlaying := True, isPaused := True\<rparr>\<rparr>))"
    by (simp add: initial_state_def)
  have b: "pause_view_ok (gs (world0\<lparr>gs := initial_state\<lparr>isPlaying := True, isPaused := True\<rparr>\<rparr>))
             (warned_hud\<lparr>overlay_hidden := False, pause_text := resume_label\<rparr>)"
    by (simp add: pause_view_ok_def initial_state_def)
  have c: "GAME_LEVELS (level (gs (world0\<lparr>gs := initial_state\<lparr>isPlaying := True, isPaused := True\<rparr>\<rparr>))) \<noteq> None"
    by (simp add: initial_state_def GAME_LEVELS_def)
  from reset_while_paused_desync [OF a b c, of "\<lambda>_. 0"] a b c show ?thesis by blast
qed

end
