(* ===== verification/Play.thy ===== *)
theory Play
  imports Runtime
begin

text \<open>
  Playing a session through the event loop of \<open>Runtime\<close>. Two clicks and the
  \<open>checkMatch\<close> timeout resolve a pair: a matching pair is matched (\<open>pair_step\<close>), a
  mismatched pair is turned back by the unflip timeout, leaving the board as it was.
  Every session of a level of the table can be won: playing the pairs one after the
  other matches the whole board, and the completion timeout then ends the session
  and hands its score record to the store.
\<close>

definition ready :: "world \<Rightarrow> bool" where
  "ready w \<longleftrightarrow> flippedCards (gs w) = [] \<and> canFlip (gs w) \<and> isPlaying (gs w) \<and> \<not> isPaused (gs w)
     \<and> \<not> isGameOver (gs w) \<and> pending w = []
     \<and> (\<forall>i<length (cards (gs w)). isFlipped (cards (gs w) ! i) \<longrightarrow> isMatched (cards (gs w) ! i))"

definition unmatched_of :: "string \<Rightarrow> card list \<Rightarrow> nat" where
  "unmatched_of v cs = length (filter (\<lambda>c. \<not> isMatched c \<and> card_value c = v) cs)"

definition paired :: "card list \<Rightarrow> bool" where
  "paired cs \<longleftrightarrow> (\<forall>v. even (unmatched_of v cs))"

definition match_card :: "card \<Rightarrow> card" where
  "match_card c = c\<lparr>isFlipped := True, isMatched := True\<rparr>"

text \<open>
  The world \<open>w\<close> reached from \<open>w0\<close> has its whole board matched, the completion timeout
  of its session as the only pending timer, the session still running at the level of
  \<open>w0\<close> with at least one move, and no further record handed to the store.
\<close>

definition board_done :: "world \<Rightarrow> world \<Rightarrow> bool" where
  "board_done w0 w \<longleftrightarrow> (\<forall>i<length (cards (gs w)). isMatched (cards (gs w) ! i))
     \<and> pending w = [(fst (hd (pending w)), session w, GameComplete)]
     \<and> isPlaying (gs w) \<and> \<not> isGameOver (gs w) \<and> level (gs w) = level (gs w0)
     \<and> 0 < moves (gs w) \<and> submitted w = submitted w0"

lemma ids_ok_flipCard: "ids_ok s \<Longrightarrow> ids_ok (flipCard i s)"
  by (cases "i < length (cards s)") (auto simp: ids_ok_def flipCard_def set_card_def nth_list_update)

lemma two_clicks:
  assumes r: "ready w" and ids: "ids_ok (gs w)" and ab: "a \<noteq> b" "a < length (cards (gs w))" "b < length (cards (gs w))"
    and um: "\<not> isMatched (cards (gs w) ! a)" "\<not> isMatched (cards (gs w) ! b)"
  shows "run w [Click a, Click b] =
           w\<lparr>gs := (gs w)\<lparr>cards := (cards (gs w))[a := (cards (gs w) ! a)\<lparr>isFlipped := True\<rparr>,
                                                 b := (cards (gs w) ! b)\<lparr>isFlipped := True\<rparr>],
                          flippedCards := [a, b], moves := Suc (moves (gs w))\<rparr>,
             pending := [(now w + 600, session w, CheckMatch)]\<rparr>"
proof -
  let ?s = "gs w"
  have nfa: "\<not> isFlipped (cards ?s ! a)" and nfb: "\<not> isFlipped (cards ?s ! b)"
    using r um ab by (auto simp: ready_def)
  have fl: "flippedCards ?s = []" "canFlip ?s" "\<not> isPaused ?s" "\<not> isGameOver ?s" "pending w = []"
    using r by (simp_all add: ready_def)
  define s1 where "s1 = (flipCard a ?s)\<lparr>flippedCards := [a]\<rparr>"
  have c1: "handleCardClick a ?s = Done (s1, [])"
    using handleCardClick_accept [OF ids fl(2,3,4) ab(2) nfa um(1)] fl(1) by (simp add: s1_def Let_def)
  have ids1: "ids_ok s1" using ids_ok_flipCard [OF ids] by (simp add: s1_def)
  have cs1: "cards s1 = (cards ?s)[a := (cards ?s ! a)\<lparr>isFlipped := True\<rparr>]"
    by (simp add: s1_def flipCard_def set_card_def)
  define s2 where "s2 = (flipCard b s1)\<lparr>flippedCards := [a, b], moves := Suc (moves ?s)\<rparr>"
  have c2: "handleCardClick b s1 = Done (s2, [SetTimeout 600 CheckMatch])"
  proof -
    have "\<not> isFlipped (cards s1 ! b)" "\<not> isMatched (cards s1 ! b)" "b < length (cards s1)"
      using cs1 ab nfb um by auto
    moreover have "canFlip s1" "\<not> isPaused s1" "\<not> isGameOver s1" "flippedCards s1 = [a]" "moves s1 = moves ?s"
      using fl by (simp_all add: s1_def flipCard_def set_card_def)
    ultimately show ?thesis using handleCardClick_accept [of s1 b] ids1 by (simp add: s2_def Let_def)
  qed
  have "run w [Click a, Click b] = w\<lparr>gs := s2, pending := [(now w + 600, session w, CheckMatch)]\<rparr>"
    using c1 c2 fl(5) by (simp add: run_def run_handler_def)
  then show ?thesis using ab(1) by (simp add: s2_def s1_def flipCard_def set_card_def)
qed

lemma pair_step:
  assumes r: "ready w" and ids: "ids_ok (gs w)" and ab: "a \<noteq> b" "a < length (cards (gs w))" "b < length (cards (gs w))"
    and um: "\<not> isMatched (cards (gs w) ! a)" "\<not> isMatched (cards (gs w) ! b)"
    and v: "card_value (cards (gs w) ! a) = card_value (cards (gs w) ! b)"
  shows "cards (gs (run w [Click a, Click b, Fire])) = (cards (gs w))[a := match_card (cards (gs w) ! a), b := match_card (cards (gs w) ! b)]
    \<and> flippedCards (gs (run w [Click a, Click b, Fire])) = [] \<and> canFlip (gs (run w [Click a, Click b, Fire]))
    \<and> isPlaying (gs (run w [Click a, Click b, Fire])) \<and> \<not> isPaused (gs (run w [Click a, Click b, Fire]))
    \<and> \<not> isGameOver (gs (run w [Click a, Click b, Fire]))
    \<and> level (gs (run w [Click a, Click b, Fire])) = level (gs w)
    \<and> moves (gs (run w [Click a, Click b, Fire])) = Suc (moves (gs w))
    \<and> matchedCards (gs (run w [Click a, Click b, Fire])) = matchedCards (gs w) @ [a, b]
    \<and> pending (run w [Click a, Click b, Fire]) =
        (if length (matchedCards (gs w)) + 2 = length (cards (gs w))
         then [(now w + 1600, session w, GameComplete)] else [])
    \<and> submitted (run w [Click a, Click b, Fire]) = submitted w \<and> session (run w [Click a, Click b, Fire]) = session w"
proof -
  let ?s = "gs w"
  define s2 where "s2 = ?s\<lparr>cards := (cards ?s)[a := (cards ?s ! a)\<lparr>isFlipped := True\<rparr>, b := (cards ?s ! b)\<lparr>isFlipped := True\<rparr>],
                          flippedCards := [a, b], moves := Suc (moves ?s)\<rparr>"
  have w2: "run w [Click a, Click b] = w\<lparr>gs := s2, pending := [(now w + 600, session w, CheckMatch)]\<rparr>"
    using two_clicks [OF r ids ab um] by (simp add: s2_def)
  have vals: "card_value (cards s2 ! a) = card_value (cards s2 ! b)"
    using v ab by (simp add: s2_def nth_list_update)
  have fs2: "flippedCards s2 = [a, b]" "matchedCards s2 = matchedCards ?s" "length (cards s2) = length (cards ?s)"
    by (simp_all add: s2_def)
  define s3 where "s3 = (set_card b (\<lambda>c. c\<lparr>isMatched := True\<rparr>) (set_card a (\<lambda>c. c\<lparr>isMatched := True\<rparr>) s2))
                          \<lparr>matchedCards := matchedCards ?s @ [a, b], score := score s2 + 100, flippedCards := []\<rparr>"
  have c3: "checkMatch s2 = Done (s3, if length (matchedCards ?s) + 2 = length (cards ?s)
                                      then [SetTimeout 1000 GameComplete] else [])"
    using checkMatch_match [OF fs2(1) vals] fs2 by (simp add: s3_def Let_def)
  have w3: "run w [Click a, Click b, Fire] = step (run w [Click a, Click b]) Fire" by (simp add: run_def)
  have fin: "run w [Click a, Click b, Fire] =
               w\<lparr>gs := s3, now := max (now w) (now w + 600),
                 pending := (if length (matchedCards ?s) + 2 = length (cards ?s)
                             then [(now w + 1600, session w, GameComplete)] else [])\<rparr>"
    unfolding w3 w2 using c3 by (simp add: run_timer_def remove_nth_def run_handler_def Let_def)
  have cs3: "cards s3 = (cards ?s)[a := match_card (cards ?s ! a), b := match_card (cards ?s ! b)]"
    using ab by (intro nth_equalityI) (auto simp: s3_def s2_def set_card_def nth_list_update match_card_def)
  have fl: "canFlip ?s" "isPlaying ?s" "\<not> isPaused ?s" "\<not> isGameOver ?s" using r by (simp_all add: ready_def)
  show ?thesis
    using fin cs3 fl by (simp add: s3_def s2_def set_card_def)
qed

text \<open>
  A mismatched pair: two clicks, the \<open>checkMatch\<close> timeout and the unflip timeout
  restore the board exactly and unlock flipping, with one more move counted.
\<close>

text \<open>C6 (roundtrip): Two clicks on unmatched cards of different values in a ready session, followed by the checkMatch timeout and the unflip timeout, give back exactly the board before the clicks, with flipping unlocked, nothing pending and one more move counted.\<close>

theorem mismatch_restores_board:
  assumes r: "ready w" and ids: "ids_ok (gs w)" and ab: "a \<noteq> b" "a < length (cards (gs w))" "b < length (cards (gs w))"
    and um: "\<not> isMatched (cards (gs w) ! a)" "\<not> isMatched (cards (gs w) ! b)"
    and v: "card_value (cards (gs w) ! a) \<noteq> card_value (cards (gs w) ! b)"
  shows "cards (gs (run w [Click a, Click b, Fire, Fire])) = cards (gs w) \<and> ready (run w [Click a, Click b, Fire, Fire])
         \<and> moves (gs (run w [Click a, Click b, Fire, Fire])) = Suc (moves (gs w))
         \<and> score (gs (run w [Click a, Click b, Fire, Fire])) = score (gs w)"
proof -
  let ?s = "gs w"
  have nf: "\<not> isFlipped (cards ?s ! a)" "\<not> isFlipped (cards ?s ! b)" using r um ab by (auto simp: ready_def)
  define s2 where "s2 = ?s\<lparr>cards := (cards ?s)[a := (cards ?s ! a)\<lparr>isFlipped := True\<rparr>, b := (cards ?s ! b)\<lparr>isFlipped := True\<rparr>],
                          flippedCards := [a, b], moves := Suc (moves ?s)\<rparr>"
  have w2: "run w [Click a, Click b] = w\<lparr>gs := s2, pending := [(now w + 600, session w, CheckMatch)]\<rparr>"
    using two_clicks [OF r ids ab um] by (simp add: s2_def)
  have vals: "card_value (cards s2 ! a) \<noteq> card_value (cards s2 ! b)"
    using v ab by (simp add: s2_def nth_list_update)
  have c3: "checkMatch s2 = Done (s2\<lparr>canFlip := False, flippedCards := []\<rparr>, [SetTimeout 1000 (UnflipPair a b)])"
    using checkMatch_mismatch [OF _ vals] by (simp add: s2_def)
  have "run w [Click a, Click b, Fire, Fire] = step (step (run w [Click a, Click b]) Fire) Fire" by (simp add: run_def)
  also have "\<dots> = w\<lparr>gs := (unflipCard b (unflipCard a (s2\<lparr>canFlip := False, flippedCards := []\<rparr>)))\<lparr>canFlip := True\<rparr>,
                   now := now w + 1600, pending := []\<rparr>"
    unfolding w2 using c3 by (simp add: run_timer_def remove_nth_def run_handler_def unflip_callback_def Let_def)
  finally have fin: "run w [Click a, Click b, Fire, Fire] = w\<lparr>gs := (unflipCard b (unflipCard a (s2\<lparr>canFlip := False, flippedCards := []\<rparr>)))\<lparr>canFlip := True\<rparr>,
                   now := now w + 1600, pending := []\<rparr>" .
  have cs: "cards (unflipCard b (unflipCard a (s2\<lparr>canFlip := False, flippedCards := []\<rparr>))) = cards ?s"
    using ab nf by (intro nth_equalityI) (auto simp: s2_def unflipCard_def set_card_def nth_list_update)
  show ?thesis
    using fin cs r by (simp add: s2_def unflipCard_def set_card_def ready_def)
qed

lemma length_filter_update_out:
  "i < length xs \<Longrightarrow> \<not> P y \<Longrightarrow> length (filter P (xs[i := y])) + (if P (xs ! i) then 1 else 0) = length (filter P xs)"
proof (induction xs arbitrary: i)
  case (Cons x xs)
  then show ?case by (cases i) auto
qed simp

lemma length_filter_two:
  assumes "2 \<le> length (filter P xs)" and "i < length xs"
  shows "\<exists>j<length xs. j \<noteq> i \<and> P (xs ! j)"
proof (rule ccontr)
  assume "\<not> ?thesis"
  then have "{j. j < length xs \<and> P (xs ! j)} \<subseteq> {i}" by auto
  then have "card {j. j < length xs \<and> P (xs ! j)} \<le> card {i}" by (intro card_mono) simp_all
  then have "card {j. j < length xs \<and> P (xs ! j)} \<le> 1" by simp
  with assms(1) show False by (simp add: length_filter_conv_card)
qed

lemma partner_exists:
  assumes "paired cs" and "i < length cs" and "\<not> isMatched (cs ! i)"
  shows "\<exists>j<length cs. j \<noteq> i \<and> \<not> isMatched (cs ! j) \<and> card_value (cs ! j) = card_value (cs ! i)"
proof -
  let ?P = "\<lambda>c. \<not> isMatched c \<and> card_value c = card_value (cs ! i)"
  have "?P (cs ! i)" using assms(3) by simp
  then have "cs ! i \<in> set (filter ?P cs)" using assms(2) by simp
  then have "0 < length (filter ?P cs)" by (metis length_pos_if_in_set)
  moreover have "even (length (filter ?P cs))" using assms(1) by (simp add: paired_def unmatched_of_def)
  ultimately have "2 \<le> length (filter ?P cs)" by presburger
  from length_filter_two [OF this assms(2)] show ?thesis by blast
qed

lemma match_two_filter:
  assumes "a \<noteq> b" "a < length cs" "b < length cs" "P (cs ! a)" "P (cs ! b)"
    and "\<not> P (match_card (cs ! a))" "\<not> P (match_card (cs ! b))"
  shows "length (filter P (cs[a := match_card (cs ! a), b := match_card (cs ! b)])) + 2 = length (filter P cs)"
proof -
  have 1: "length (filter P (cs[a := match_card (cs ! a)])) + 1 = length (filter P cs)"
    using length_filter_update_out [of a cs P "match_card (cs ! a)"] assms(2,4,6) by simp
  have "(cs[a := match_card (cs ! a)]) ! b = cs ! b" using assms(1) by simp
  then have 2: "length (filter P (cs[a := match_card (cs ! a), b := match_card (cs ! b)])) + 1
                  = length (filter P (cs[a := match_card (cs ! a)]))"
    using length_filter_update_out [of b "cs[a := match_card (cs ! a)]" P "match_card (cs ! b)"] assms(3,5,7)
    by simp
  from 1 2 show ?thesis by simp
qed

lemma paired_match:
  assumes "paired cs" "a \<noteq> b" "a < length cs" "b < length cs" "\<not> isMatched (cs ! a)" "\<not> isMatched (cs ! b)"
    and "card_value (cs ! a) = card_value (cs ! b)"
  shows "paired (cs[a := match_card (cs ! a), b := match_card (cs ! b)])"
  unfolding paired_def
proof
  fix v
  let ?cs' = "cs[a := match_card (cs ! a), b := match_card (cs ! b)]"
  let ?P = "\<lambda>c. \<not> isMatched c \<and> card_value c = v"
  have nm: "\<not> ?P (match_card c)" for c by (simp add: match_card_def)
  have ev: "even (unmatched_of v cs)" using assms(1) by (simp add: paired_def)
  show "even (unmatched_of v ?cs')"
  proof (cases "card_value (cs ! a) = v")
    case True
    have "unmatched_of v ?cs' + 2 = unmatched_of v cs"
      using match_two_filter [of a b cs ?P, OF assms(2,3,4) _ _ nm nm] assms(5,6,7) True
      unfolding unmatched_of_def by simp
    with ev show ?thesis by presburger
  next
    case False
    have 1: "length (filter ?P (cs[a := match_card (cs ! a)])) = length (filter ?P cs)"
      using length_filter_update_out [of a cs ?P "match_card (cs ! a)"] assms(3) False nm by simp
    have "(cs[a := match_card (cs ! a)]) ! b = cs ! b" using assms(2) by simp
    then have "length (filter ?P ?cs') = length (filter ?P (cs[a := match_card (cs ! a)]))"
      using length_filter_update_out [of b "cs[a := match_card (cs ! a)]" ?P "match_card (cs ! b)"] assms(4,7)
        False nm by simp
    with 1 ev show ?thesis by (simp add: unmatched_of_def)
  qed
qed

lemma matched_count:
  assumes "wf_game s"
  shows "length (matchedCards s) + length (filter (\<lambda>c. \<not> isMatched c) (cards s)) = length (cards s)"
proof -
  have d: "distinct (matchedCards s)" and st: "set (matchedCards s) = {i. i < length (cards s) \<and> isMatched (cards s ! i)}"
    using assms by (simp_all add: wf_game_def)
  have "length (matchedCards s) = card (set (matchedCards s))" using d by (rule distinct_card [symmetric])
  also have "\<dots> = length (filter isMatched (cards s))"
    unfolding st by (simp add: length_filter_conv_card)
  finally show ?thesis by (simp add: sum_length_filter_compl)
qed

lemma run_append: "run w (xs @ ys) = run (run w xs) ys"
  by (simp add: run_def)

lemma ready_after_pair:
  assumes "ready w" and "a < length (cards (gs w))" and "b < length (cards (gs w))"
    and "cards (gs w') = (cards (gs w))[a := match_card (cards (gs w) ! a), b := match_card (cards (gs w) ! b)]"
    and "flippedCards (gs w') = []" "canFlip (gs w')" "isPlaying (gs w')" "\<not> isPaused (gs w')"
    and "\<not> isGameOver (gs w')" "pending w' = []"
  shows "ready w'"
proof -
  have "isFlipped (cards (gs w') ! i) \<longrightarrow> isMatched (cards (gs w') ! i)" if "i < length (cards (gs w'))" for i
    using assms(1,2,3,4) that by (auto simp: ready_def nth_list_update match_card_def)
  with assms(5-10) show ?thesis by (simp add: ready_def)
qed

lemma play_all:
  assumes "reachable w" "ready w" "paired (cards (gs w))" "length (filter (\<lambda>c. \<not> isMatched c) (cards (gs w))) = n"
    "0 < n"
  shows "\<exists>evs. board_done w (run w evs)"
  using assms
proof (induction n arbitrary: w rule: less_induct)
  case (less n)
  let ?cs = "cards (gs w)"
  have wf: "wf_game (gs w)" using reachable_inv [OF less.prems(1)] by (simp add: inv_world_def)
  then have ids: "ids_ok (gs w)" by (simp add: wf_game_def)
  have "filter (\<lambda>c. \<not> isMatched c) ?cs \<noteq> []" using less.prems(4,5) by auto
  then have "hd (filter (\<lambda>c. \<not> isMatched c) ?cs) \<in> set (filter (\<lambda>c. \<not> isMatched c) ?cs)" by (rule hd_in_set)
  then obtain a where a: "a < length ?cs" "\<not> isMatched (?cs ! a)" by (auto simp: in_set_conv_nth)
  obtain b where b: "b < length ?cs" "b \<noteq> a" "\<not> isMatched (?cs ! b)" "card_value (?cs ! b) = card_value (?cs ! a)"
    using partner_exists [OF less.prems(3) a] by blast
  define w1 where "w1 = run w [Click a, Click b, Fire]"
  note ps = pair_step [OF less.prems(2) ids b(2) [symmetric] a(1) b(1) a(2) b(3) b(4) [symmetric], folded w1_def]
  have cs1: "cards (gs w1) = ?cs[a := match_card (?cs ! a), b := match_card (?cs ! b)]" using ps by blast
  have cnt: "length (filter (\<lambda>c. \<not> isMatched c) (cards (gs w1))) + 2 = n"
    using match_two_filter [of a b ?cs "\<lambda>c. \<not> isMatched c"] a b less.prems(4) unfolding cs1
    by (simp add: match_card_def)
  have mc: "length (matchedCards (gs w)) + n = length ?cs" using matched_count [OF wf] less.prems(4) by simp
  have pend: "pending w1 = (if n = 2 then [(now w + 1600, session w1, GameComplete)] else [])"
    using ps mc by auto
  have keep: "level (gs w1) = level (gs w)" "submitted w1 = submitted w" "0 < moves (gs w1)"
    using ps by simp_all
  show ?case
  proof (cases "n = 2")
    case True
    have "filter (\<lambda>c. \<not> isMatched c) (cards (gs w1)) = []" using cnt True by simp
    then have "\<forall>i<length (cards (gs w1)). isMatched (cards (gs w1) ! i)"
      by (auto simp: filter_empty_conv)
    then have "board_done w (run w [Click a, Click b, Fire])"
      using ps pend keep True unfolding w1_def [symmetric] by (simp add: board_done_def)
    then show ?thesis by blast
  next
    case False
    have n: "n - 2 < n" "0 < n - 2" "length (filter (\<lambda>c. \<not> isMatched c) (cards (gs w1))) = n - 2"
      using cnt False by auto
    have rd: "ready w1"
      using ready_after_pair [OF less.prems(2) a(1) b(1) cs1] ps pend False by simp
    have pr: "paired (cards (gs w1))"
      unfolding cs1 by (rule paired_match [OF less.prems(3) b(2) [symmetric] a(1) b(1) a(2) b(3) b(4) [symmetric]])
    have re: "reachable w1" unfolding w1_def by (rule reachable_run [OF less.prems(1)])
    obtain evs where ih: "board_done w1 (run w1 evs)"
      using less.IH [OF n(1) re rd pr n(3) n(2)] by blast
    have "board_done w (run w ([Click a, Click b, Fire] @ evs))"
      using ih keep unfolding run_append w1_def [symmetric] by (simp add: board_done_def)
    then show ?thesis by blast
  qed
qed

lemma make_cards_length [simp]: "length (make_cards vs) = length vs"
  by (simp add: make_cards_def)

lemma make_cards_nth:
  "i < length vs \<Longrightarrow> make_cards vs ! i = \<lparr>card_id = i, card_value = vs ! i, isFlipped = False, isMatched = False\<rparr>"
  by (simp add: make_cards_def)

lemma make_cards_unmatched: "\<forall>c\<in>set (make_cards vs). \<not> isMatched c \<and> \<not> isFlipped c"
  by (auto simp: in_set_conv_nth make_cards_nth)

lemma length_filter_value: "length (filter ((=) v) (map card_value cs)) = length (filter (\<lambda>c. v = card_value c) cs)"
  by (induction cs) auto

lemma make_cards_values: "map card_value (make_cards vs) = vs"
  using map_snd_upt_zip [of "\<lambda>v. v" vs] by (simp add: make_cards_def split_def comp_def)

lemma unmatched_of_make_cards: "unmatched_of v (make_cards vs) = count (mset vs) v"
proof -
  have "filter (\<lambda>c. \<not> isMatched c \<and> card_value c = v) (make_cards vs)
          = filter (\<lambda>c. v = card_value c) (make_cards vs)"
    using make_cards_unmatched [of vs] by (auto intro: filter_cong)
  then have "unmatched_of v (make_cards vs) = length (filter ((=) v) (map card_value (make_cards vs)))"
    by (simp only: unmatched_of_def length_filter_value)
  then show ?thesis by (simp add: make_cards_values count_mset count_list_eq_length_filter)
qed

lemma paired_deck: "mset d = mset (pair_up xs) \<Longrightarrow> paired (make_cards d)"
  by (simp add: paired_def unmatched_of_make_cards mset_pair_up)

lemma fresh_session:
  assumes "GAME_LEVELS lvl = Some cfg" and "generateRandomCards rnd lvl ''animals'' = Inr d"
  shows "gs (step world0 (StartSession lvl name rnd))
           = initial_state\<lparr>level := lvl, playerName := (if name = [] then anonymous else name),
                           cards := make_cards d, isPlaying := True, startTime := Some 0\<rparr>
         \<and> pending (step world0 (StartSession lvl name rnd)) = []
         \<and> submitted (step world0 (StartSession lvl name rnd)) = []"
  using assms by (simp add: startNewGame_def resetGameState_def run_handler_def new_session_def world0_def Let_def)

lemma complete_fire:
  assumes "board_done w0 w" and "GAME_LEVELS (level (gs w0)) \<noteq> None"
  shows "isGameOver (gs (step w Fire)) \<and> \<not> isPlaying (gs (step w Fire))
         \<and> (\<forall>i<length (cards (gs (step w Fire))). isMatched (cards (gs (step w Fire)) ! i))
         \<and> (\<exists>e. submitted (step w Fire) = submitted w0 @ [e] \<and> entry_level e = level (gs w0)
                \<and> entry_score e = score (gs (step w Fire)))"
proof -
  define d where "d = fst (hd (pending w))"
  have p: "pending w = [(d, session w, GameComplete)]"
    using assms(1) unfolding d_def by (simp add: board_done_def)
  obtain v where v: "calculateScore (timeSpent (gs w)) (moves (gs w)) (level (gs w)) = Inr v"
    using calculateScore_Inr_iff [of "timeSpent (gs w)" "moves (gs w)" "level (gs w)"] assms
    by (auto simp: board_done_def)
  have "step w Fire = run_timer (d, session w, GameComplete) (w\<lparr>pending := []\<rparr>)"
    using p by (simp add: remove_nth_def)
  then show ?thesis
    using assms(1) v by (simp add: board_done_def run_timer_def run_handler_def handleGameComplete_def Let_def)
qed

text \<open>C14 (liveness): Every session started on a level of the table with draws of Math.random in [0, 1) can be won: some sequence of clicks and timeouts matches every card, ends the session and hands exactly one score record of that level, carrying the final score, to the store.\<close>

theorem session_can_be_won:
  assumes "GAME_LEVELS lvl \<noteq> None" and "random_ok rnd"
  shows "\<exists>evs. isGameOver (gs (run (step world0 (StartSession lvl name rnd)) evs))
           \<and> (\<forall>i<length (cards (gs (run (step world0 (StartSession lvl name rnd)) evs))).
                isMatched (cards (gs (run (step world0 (StartSession lvl name rnd)) evs)) ! i))
           \<and> (\<exists>e. submitted (run (step world0 (StartSession lvl name rnd)) evs) = [e] \<and> entry_level e = lvl
                  \<and> entry_score e = score (gs (run (step world0 (StartSession lvl name rnd)) evs)))"
proof -
  let ?w0 = "step world0 (StartSession lvl name rnd)"
  obtain cfg where cfg: "GAME_LEVELS lvl = Some cfg" using assms(1) by blast
  obtain syms where syms: "CARD_DATA ''animals'' = Some syms" by (simp add: CARD_DATA_def)
  let ?k = "(rows (level_grid cfg) * cols (level_grid cfg)) div 2"
  obtain d where gd: "generateRandomCards rnd lvl ''animals'' = Inr d"
    and md: "mset d = mset (pair_up (take ?k syms))"
    using generateRandomCards_mset [OF cfg syms assms(2)] by blast
  note fs = fresh_session [OF cfg gd, of name]
  have "0 < ?k" using GAME_LEVELS_cases [OF cfg] by auto
  moreover have "length syms = 16" using animals_distinct [OF syms] by simp
  moreover have "length d = 2 * length (take ?k syms)"
    using arg_cong [OF md, of size] by (simp add: mset_pair_up)
  ultimately have "0 < length d" by simp
  moreover have "filter (\<lambda>c. \<not> isMatched c) (make_cards d) = make_cards d"
    using make_cards_unmatched [of d] by (simp add: filter_id_conv)
  ultimately have n: "0 < length (filter (\<lambda>c. \<not> isMatched c) (cards (gs ?w0)))"
    using fs by simp
  have rd: "ready ?w0"
    using fs make_cards_unmatched [of d] by (auto simp: ready_def initial_state_def)
  have pr: "paired (cards (gs ?w0))" using fs paired_deck [OF md] by simp
  have re: "reachable ?w0" by (rule reachable.step [OF reachable.init])
  obtain evs where bd: "board_done ?w0 (run ?w0 evs)"
    using play_all [OF re rd pr refl n] by blast
  have lv: "GAME_LEVELS (level (gs ?w0)) \<noteq> None" using fs assms(1) by simp
  have eq: "run ?w0 (evs @ [Fire]) = step (run ?w0 evs) Fire" by (simp add: run_def)
  note cf = complete_fire [OF bd lv]
  show ?thesis
  proof (rule exI [of _ "evs @ [Fire]"])
    show "isGameOver (gs (run ?w0 (evs @ [Fire])))
           \<and> (\<forall>i<length (cards (gs (run ?w0 (evs @ [Fire])))). isMatched (cards (gs (run ?w0 (evs @ [Fire]))) ! i))
           \<and> (\<exists>e. submitted (run ?w0 (evs @ [Fire])) = [e] \<and> entry_level e = lvl
                  \<and> entry_score e = score (gs (run ?w0 (evs @ [Fire]))))"
      unfolding eq using cf fs by simp
  qed
qed

section \<open>Witnesses\<close>

theorem session_can_be_won_witness:
  "GAME_LEVELS 1 \<noteq> None \<and> random_ok (\<lambda>_. 0)
   \<and> (\<exists>evs. isGameOver (gs (run (step world0 (StartSession 1 ''kim'' (\<lambda>_. 0))) evs))
       \<and> (\<forall>i<length (cards (gs (run (step world0 (StartSession 1 ''kim'' (\<lambda>_. 0))) evs))).
            isMatched (cards (gs (run (step world0 (StartSession 1 ''kim'' (\<lambda>_. 0))) evs)) ! i))
       \<and> (\<exists>e. submitted (run (step world0 (StartSession 1 ''kim'' (\<lambda>_. 0))) evs) = [e] \<and> entry_level e = 1
              \<and> entry_score e = score (gs (run (step world0 (StartSession 1 ''kim'' (\<lambda>_. 0))) evs))))"
proof -
  have g: "GAME_LEVELS 1 \<noteq> None" by (simp add: GAME_LEVELS_def)
  have r: "random_ok (\<lambda>_. 0)" by (simp add: random_ok_def)
  from session_can_be_won [OF g r, of "''kim''"] g r show ?thesis by blast
qed

theorem mismatch_restores_board_witness:
  "ready (world0\<lparr>gs := demo_game\<rparr>) \<and> ids_ok (gs (world0\<lparr>gs := demo_game\<rparr>)) \<and> (0::nat) \<noteq> 1
   \<and> 0 < length (cards (gs (world0\<lparr>gs := demo_game\<rparr>))) \<and> 1 < length (cards (gs (world0\<lparr>gs := demo_game\<rparr>)))
   \<and> \<not> isMatched (cards (gs (world0\<lparr>gs := demo_game\<rparr>)) ! 0) \<and> \<not> isMatched (cards (gs (world0\<lparr>gs := demo_game\<rparr>)) ! 1)
   \<and> card_value (cards (gs (world0\<lparr>gs := demo_game\<rparr>)) ! 0) \<noteq> card_value (cards (gs (world0\<lparr>gs := demo_game\<rparr>)) ! 1)
   \<and> cards (gs (run (world0\<lparr>gs := demo_game\<rparr>) [Click 0, Click 1, Fire, Fire])) = cards demo_game
   \<and> ready (run (world0\<lparr>gs := demo_game\<rparr>) [Click 0, Click 1, Fire, Fire])
   \<and> moves (gs (run (world0\<lparr>gs := demo_game\<rparr>) [Click 0, Click 1, Fire, Fire])) = 1"
proof -
  have h: "ready (world0\<lparr>gs := demo_game\<rparr>)" "ids_ok (gs (world0\<lparr>gs := demo_game\<rparr>))" "(0::nat) \<noteq> 1"
    "0 < length (cards (gs (world0\<lparr>gs := demo_game\<rparr>)))" "1 < length (cards (gs (world0\<lparr>gs := demo_game\<rparr>)))"
    "\<not> isMatched (cards (gs (world0\<lparr>gs := demo_game\<rparr>)) ! 0)" "\<not> isMatched (cards (gs (world0\<lparr>gs := demo_game\<rparr>)) ! 1)"
    "card_value (cards (gs (world0\<lparr>gs := demo_game\<rparr>)) ! 0) \<noteq> card_value (cards (gs (world0\<lparr>gs := demo_game\<rparr>)) ! 1)"
    by (simp_all add: ready_def world0_def initial_state_def ids_ok_def make_cards_def nth_Cons' less_Suc_eq)
  from mismatch_restores_board [OF h] h show ?thesis by (simp add: initial_state_def)
qed

end
