(* ===== verification/Spec2Isabelle.thy ===== *)
theory Spec2Isabelle
  imports App BuildConfig View Play
begin

text \<open>
  \<^bold>\<open>A verification development of the browser memory card game\<close>
  (\<open>src/scripts/*.js\<close>): a shallow embedding of its configuration, game session,
  event loop, score store and application shell in Isabelle/HOL, with the properties
  that make each part correct and the places where the code departs from its
  specification.

  \<^bold>\<open>The program.\<close> \<open>config.js\<close> holds the level table, the symbol table, the score
  formula, the clock display and the deck generator. \<open>game.js\<close> is the session
  object \<open>CardGame\<close>: clicks flip cards, a second flip schedules \<open>checkMatch\<close>, a
  match scores and may schedule completion, a mismatch locks the board and schedules
  an unflip, a clock ticks every second, hints reveal a pair. \<open>database.js\<close> saves
  completed games to a remote table with a \<open>localStorage\<close> fallback, answers
  leaderboard and statistics queries, and pushes pending local records back.
  \<open>main.js\<close> wires buttons and keys to the session, keeps the player name and last
  level, and monitors the connection every five minutes. The session hands each
  completed game to the store through \<open>DatabaseAPI.saveGameScore\<close>.

  \<^bold>\<open>Theories.\<close>
  \<^item> \<open>Prelude\<close>: the exception type \<open>error\<close>, the outcome \<open>js_outcome\<close> of a method
    that may throw after mutating (\<open>Done\<close>, \<open>Thrown\<close>), UTF-8 literals, the
    \<open>score_entry\<close> record that crosses from session to store, \<open>js_trim\<close>, \<open>find_idx\<close>
    (\<open>Array.prototype.find\<close>), the stable descending sort of the comparator
    \<open>(a, b) => b.score - a.score\<close>, and the shared list lemmas.
  \<^item> \<open>Config\<close> (\<open>config.js\<close>): \<open>GAME_LEVELS\<close>, \<open>CARD_DATA\<close>, \<open>calculateScore\<close>
    (an \<open>error + int\<close>: \<open>TypeError\<close> for an unknown level, \<open>NonFinite\<close> for the
    division by zero moves), \<open>formatTime\<close> with the parser \<open>parse_time\<close> of its
    output, \<open>formatDate\<close>, \<open>shuffleArray\<close> as the loop \<open>fy_loop\<close>,
    and \<open>generateRandomCards\<close>.
    Lemmas: the score on every branch, its lower bound and monotonicity in time and
    moves, the display round trip, the day buckets of \<open>formatDate\<close>, the shuffle is a
    permutation, every deck is paired.
  \<^item> \<open>Game\<close> (\<open>game.js\<close>): \<open>card\<close> and \<open>game_state\<close> records, one definition per
    state-changing method (\<open>startNewGame\<close>, \<open>handleCardClick\<close>, \<open>checkMatch\<close>,
    \<open>handleMatch\<close>, \<open>handleMismatch\<close>, the unflip closure \<open>unflip_callback\<close>,
    \<open>handleGameComplete\<close>, the clock callback \<open>clock_tick\<close>, \<open>togglePause\<close>,
    \<open>findMatchingPairs\<close>, \<open>showHint\<close>); each returns the new state and the effects
    (\<open>effect\<close>: timeouts, clock start and stop, score saves). Card references are
    positions in \<open>cards\<close>. The well-formedness \<open>wf_game\<close>; lemmas on every branch of
    the click handler, the pair resolution, the hint search (complete and sound),
    the hint, session start and completion.
  \<^item> \<open>Runtime\<close>: the event loop around the session. \<open>world\<close> holds the session,
    a session counter (the identity of the card objects the closures captured), the
    clock, the pending timeouts with their due time and scheduling session, the
    running \<open>setInterval\<close>, and the records handed to the store. \<open>step\<close> runs one
    event to completion; \<open>reachable\<close> is the inductive set of reachable worlds. Its
    invariant \<open>inv_world\<close> is proved by rule induction; the stale completion
    callback, the terminal completed state and the callbacks acting during a pause
    are proved on \<open>step\<close>; only a start writes \<open>startTime\<close>, so the clock
    counts the time spent paused. \<open>drain\<close> runs the pending timeouts to the end
    (\<open>while_option\<close>); it terminates because the weight of the queue (two for a
    pending \<open>checkMatch\<close>, one for the other callbacks) falls with every timeout.
  \<^item> \<open>Lifecycle\<close>: the session life cycle of the spec (\<open>Idle\<close>, \<open>Playing\<close>,
    \<open>Paused\<close>, \<open>Complete\<close>) as an inductive labelled transition relation
    \<open>spec_step\<close>, the abstraction \<open>status_of\<close> of the session flags, and the
    simulation: from every world reached by starts of table levels (\<open>reachable_valid\<close>),
    every event keeps the status or is a spec transition with its label. Proved by rule
    induction over the invariant \<open>inv_lifecycle\<close>; corollaries by \<open>inductive_cases\<close>:
    a completed session is left only by a start, and \<open>Idle\<close> is never re-entered.
  \<^item> \<open>Play\<close>: a mismatched pair and its two timeouts give back the board as it was;
    every session of a table level can be won. Two clicks on cards of
    equal value and the \<open>checkMatch\<close> timeout match a pair (\<open>pair_step\<close>); the
    unmatched cards keep an even count of every value (\<open>paired\<close>), so a partner
    always exists; induction on the number of unmatched cards reaches a board whose
    completion timeout is the only pending timer (\<open>board_done\<close>), and firing it ends
    the session with one score record for the store.
  \<^item> \<open>View\<close> (the display writes of \<open>game.js\<close>): the \<open>hud\<close> of timer text and
    warning class, move and score texts, hint button, pause overlay and label;
    \<open>updateTimer\<close>, \<open>updateUI\<close>, the score text of \<open>addScore\<close>, the display part
    of \<open>togglePause\<close> and of \<open>hideAllModals\<close>, \<open>showGameCompleteModal\<close>,
    \<open>playSound\<close>, the card elements of
    \<open>renderCards\<close> (each clicks its own card) and the particles of \<open>createMatchEffect\<close>
    and \<open>createBackgroundParticles\<close> (within their bounds for every draw in
    \<open>[0, 1)\<close>); \<open>view_step\<close> runs a \<open>Runtime\<close> event
    and then the writes its handler made. Lemmas: the warning appears from the tick
    at which 90 percent of the time limit is exceeded and is never removed; the pause
    display agrees with the session under every event except a start during a pause,
    which leaves it showing a pause that is not there.
  \<^item> \<open>Database\<close> (\<open>database.js\<close>): \<open>store\<close> of local storage, remote table and
    connection status; every remote call is answered by a \<open>net\<close> value (success,
    error response, exception, write whose acknowledgement was lost). Lemmas: the
    save outcome, the local list of the 20 best scores (not the latest 20 its comment
    names) and its eviction of pending records, the
    synchronisation loop (idempotent, never loses a record, duplicates after a lost
    acknowledgement), leaderboard fallback, statistics rounding and error handling.
  \<^item> \<open>App\<close> (\<open>main.js\<close>): the \<open>app\<close> record (level, name, the saved settings and
    game progress, the world and the store), \<open>initializeApp\<close> with
    \<open>initializeSupabase\<close>, \<open>startGame\<close>, \<open>loadSavedSettings\<close>, \<open>game_event\<close> (a
    session event followed by the saves it requested), \<open>monitor_tick\<close>,
    \<open>loadLeaderboard\<close> with the rows \<open>renderLeaderboard\<close> shows, \<open>handlePageUnload\<close>,
    \<open>restoreSavedGame\<close>, \<open>selectDifficultyByLevel\<close>, and \<open>page_load\<close>: the connection
    check \<open>database.js\<close> runs as it loads, before the app creates the client, so the
    status starts offline. The storage keys are distinct, which justifies keeping
    each stored value in a field of its own.
  \<^item> \<open>EnvLoader\<close> (\<open>env-loader.js\<close>, \<open>getSupabaseConfig\<close> of \<open>config.js\<close>):
    \<open>parseEnvFile\<close> with the JavaScript \<open>split\<close> and \<open>join\<close> it uses,
    \<open>loadEnvironmentVariables\<close> (the fetched file is an argument) and the look-up
    order of the Supabase settings. Lemmas: the parser inverts the writing of
    well-formed \<open>KEY=value\<close> lines (keys and values without surrounding white
    space in the sense of \<open>trim\<close>); every quoted value keeps its quotes.
  \<^item> \<open>BuildConfig\<close> (\<open>build.js\<close>): the settings read from \<open>process.env\<close>, the
    effect of the generated \<open>supabase-config.js\<close> on the page (not its text), the
    build's exit status. Lemma: \<open>SUPABASE_URL\<close> and \<open>SUPABASE_ANON_KEY\<close> take
    precedence over the \<open>VITE_\<close> settings and over \<open>window.ENV\<close>.
  \<^item> This theory: the boot of the page (\<open>SUPABASE_CONFIG\<close> computed while the
    scripts are evaluated, \<open>page_boot\<close> with the \<open>.env\<close> fetch after
    \<open>DOMContentLoaded\<close>) and the properties that span components: a completed session
    reaches the store; the \<open>.env\<close> file never reaches the configuration the page
    boots with; a build without settings leaves the development page on the built-in
    project, and the production page offline.

  \<^bold>\<open>Modelling choices.\<close> JavaScript numbers are integers wherever the code keeps
  them integral; the efficiency bonus \<open>Math.floor(target * 200 / moves)\<close> is the exact
  integer quotient. \<open>Math.random()\<close> is a stream \<open>nat \<Rightarrow> rat\<close> whose values the
  theorems require in \<open>[0, 1)\<close> (\<open>random_ok\<close>); \<open>Date.now()\<close> is an argument. Every
  loop of the sources runs over a finite list: it is structural recursion, or (the two
  loops of \<open>js_trim\<close>) a \<open>function\<close> whose termination is proved by the length of
  the string, so no fuel is needed and every operation is total and executable. Timers fire in due order,
  ties in scheduling order, possibly late. A thrown exception ends its event and keeps
  the mutations made before it. The remote table assigns serial ids and keeps insert
  order. \<open>String.prototype.trim\<close> removes the ECMAScript white space and line
  terminators, matched by their UTF-8 encodings (\<open>js_trim\<close>). The Supabase
  library is assumed to refuse an empty URL or key. Dates are milliseconds since
  the epoch. The page's HTML is not under \<open>src/\<close>: the first content of the display
  is an argument, and the page is taken to carry one difficulty button per level of
  \<open>GAME_LEVELS\<close>, so the starts \<open>main.js\<close> makes are starts of table levels
  (\<open>valid_event\<close> in \<open>Lifecycle\<close>).

  \<^bold>\<open>Not modelled.\<close> CSS animations, the audio graph of a beep (its frequency is
  modelled), the look-up of DOM elements and the opening and closing of modals (no
  state the program reads; the texts, classes, labels, card elements and particles
  the code creates are modelled in \<open>View\<close>); the locale rendering of dates older than a week; the text
  of the generated \<open>supabase-config.js\<close> and the console output of \<open>build.js\<close>
  (only the configuration the script establishes is modelled); the service-worker
  registration and the 30-second refresh of the background particles (no program
  state). With zero moves the code saves the score \<open>Infinity\<close>; the model stops
  before that save.
\<close>

section \<open>Booting the page\<close>

text \<open>
  \<open>const SUPABASE_CONFIG = getSupabaseConfig()\<close>: \<open>config.js\<close> reads the settings
  once, synchronously, as the script is evaluated, with the \<open>window.ENV\<close> the page
  has at that moment.
\<close>

definition SUPABASE_CONFIG :: "(string \<times> string) option \<Rightarrow> env option \<Rightarrow> error + (string \<times> string)" where
  "SUPABASE_CONFIG built ENV0 = getSupabaseConfig built ENV0"

text \<open>
  The boot of the page. The scripts are evaluated first, \<open>config.js\<close> computing
  \<open>SUPABASE_CONFIG\<close> from \<open>window.ENV\<close> as it stands (\<open>ENV0\<close>). On
  \<open>DOMContentLoaded\<close> (or at once when the document is already parsed) \<open>env-loader.js\<close>
  starts \<open>loadEnvironmentVariables\<close>, whose \<open>fetch('/.env')\<close> is answered in a later
  task, and \<open>main.js\<close> constructs the app on the configuration computed before
  (\<open>page_load\<close>). The result is the app and the \<open>window.ENV\<close> the loader leaves.
\<close>

definition page_boot :: "(string \<times> string) option \<Rightarrow> env option \<Rightarrow> string \<Rightarrow> string option \<Rightarrow> bool
                         \<Rightarrow> net \<Rightarrow> store \<Rightarrow> app \<times> env option" where
  "page_boot built ENV0 host response lib_loaded n st =
     (let cfg = SUPABASE_CONFIG built ENV0;
          a = page_load n cfg lib_loaded st
      in (a, loadEnvironmentVariables ENV0 host response))"

section \<open>From session completion to the score store\<close>

text \<open>C7 (functional): When the completion timeout fires, the app hands exactly the record of the finished session (its player, the final score calculateScore computed, level, moves and time) to saveGameScore, answered by the network, and the store afterwards is the store that call returns.\<close>

theorem completion_saves_through_store:
  assumes "pending (app_world a) = [(due, t, GameComplete)]"
    and "calculateScore (timeSpent (gs (app_world a))) (moves (gs (app_world a))) (level (gs (app_world a))) = Inr sc"
  shows "app_store (game_event Fire nets a) =
           fst (saveGameScore \<lparr>entry_player = playerName (gs (app_world a)), entry_score = sc,
                                entry_level = level (gs (app_world a)), entry_flips = moves (gs (app_world a)),
                                entry_time = timeSpent (gs (app_world a))\<rparr>
                              (nets 0) (max (now (app_world a)) due) (app_store a))
         \<and> isGameOver (gs (app_world (game_event Fire nets a))) \<and> score (gs (app_world (game_event Fire nets a))) = sc"
  using assms
  by (simp add: game_event_def run_timer_def remove_nth_def run_handler_def handleGameComplete_def Let_def)

section \<open>From the build to the page\<close>

text \<open>C16 (safety): On a development host, after a build without a Supabase URL, the page uses the built-in Supabase project even when the .env file loaded by env-loader.js names another.\<close>

theorem dev_env_file_ignored:
  assumes "is_dev_host host" and "build_url env = []" and "sq_safe (build_key env)"
  shows "getSupabaseConfig (generated_config (build_url env, build_key env) host)
           (loadEnvironmentVariables ENV host response) = Inr (default_url, default_key)"
  using assms by (simp add: generated_config_def getSupabaseConfig_def sq_safe_def)

text \<open>C33 (error): On a production host, after a build without a Supabase URL, the empty settings pass the configuration check, the app reports itself initialised, and no Supabase client exists, so every save goes to the local fallback.\<close>

theorem production_build_runs_offline:
  assumes "\<not> is_dev_host host" and "build_url env = []" and "sq_safe (build_key env)"
  shows "isInitialized (initializeApp (getSupabaseConfig (generated_config (build_url env, build_key env) host) ENV) lib a)
         \<and> \<not> has_client (remote_st (app_store
               (initializeApp (getSupabaseConfig (generated_config (build_url env, build_key env) host) ENV) lib a)))"
  using assms
  by (simp add: generated_config_def getSupabaseConfig_def sq_safe_def initializeApp_def initializeSupabase_def Let_def)

section \<open>The .env file at boot\<close>

text \<open>C17 (safety): The configuration the page boots with never depends on the .env file: config.js reads the settings while the scripts are evaluated, before env-loader.js fills window.ENV from the fetched file, so without a generated configuration or a preset window.ENV the app is not initialised although the loader does read the URL from a valid .env file.\<close>

theorem env_file_never_read:
  "fst (page_boot built ENV0 host response lib_loaded n st) = fst (page_boot built ENV0 host response' lib_loaded n st)
   \<and> \<not> isInitialized (fst (page_boot None None host response lib_loaded n st))
   \<and> snd (page_boot None None ''localhost'' (Some ''VITE_SUPABASE_URL=https://x.supabase.co'') lib_loaded n st)
       = Some \<lparr>SUPABASE_URL = ''https://x.supabase.co'', SUPABASE_ANON_KEY = []\<rparr>"
  by (simp add: page_boot_def SUPABASE_CONFIG_def getSupabaseConfig_def page_load_def initializeApp_def app0_def
                loadEnvironmentVariables_def is_dev_host_def parseEnvFile_def parse_line_def js_trim_eval
                or_empty_def Let_def)

section \<open>Witnesses\<close>

theorem completion_saves_through_store_witness:
  "pending (app_world ((app0 demo_store)\<lparr>app_world := world0\<lparr>gs := demo_game\<lparr>moves := 12, timeSpent := 60\<rparr>,
                                                              pending := [(1000, 0, GameComplete)]\<rparr>\<rparr>))
     = [(1000, 0, GameComplete)]
   \<and> calculateScore 60 12 1 = Inr 1000
   \<and> app_store (game_event Fire (\<lambda>_. NetOk) ((app0 demo_store)\<lparr>app_world := world0\<lparr>gs := demo_game\<lparr>moves := 12, timeSpent := 60\<rparr>,
                                                              pending := [(1000, 0, GameComplete)]\<rparr>\<rparr>))
     = fst (saveGameScore \<lparr>entry_player = [], entry_score = 1000, entry_level = 1, entry_flips = 12, entry_time = 60\<rparr>
                          NetOk 1000 demo_store)"
proof -
  let ?a = "(app0 demo_store)\<lparr>app_world := world0\<lparr>gs := demo_game\<lparr>moves := 12, timeSpent := 60\<rparr>,
                                                   pending := [(1000, 0, GameComplete)]\<rparr>\<rparr>"
  have p: "pending (app_world ?a) = [(1000, 0, GameComplete)]" by simp
  have c: "calculateScore (timeSpent (gs (app_world ?a))) (moves (gs (app_world ?a))) (level (gs (app_world ?a))) = Inr 1000"
    by (simp add: calculateScore_def GAME_LEVELS_def initial_state_def)
  have c': "calculateScore 60 12 1 = Inr 1000" by (simp add: calculateScore_def GAME_LEVELS_def)
  from completion_saves_through_store [OF p c, of "\<lambda>_. NetOk"] c' show ?thesis
    by (simp add: initial_state_def world0_def app0_def)
qed

theorem dev_env_file_ignored_witness:
  "is_dev_host ''localhost'' \<and> build_url Map.empty = [] \<and> sq_safe (build_key Map.empty)
   \<and> parseEnvFile ''VITE_SUPABASE_URL=https://mine.supabase.co'' ''VITE_SUPABASE_URL'' = Some ''https://mine.supabase.co''
   \<and> getSupabaseConfig (generated_config (build_url Map.empty, build_key Map.empty) ''localhost'')
       (loadEnvironmentVariables None ''localhost'' (Some ''VITE_SUPABASE_URL=https://mine.supabase.co''))
     = Inr (default_url, default_key)"
proof -
  have h: "is_dev_host ''localhost''" "build_url Map.empty = []" "sq_safe (build_key Map.empty)"
    by (simp_all add: is_dev_host_def build_url_def build_key_def or_empty_def sq_safe_def)
  have p: "parseEnvFile ''VITE_SUPABASE_URL=https://mine.supabase.co'' ''VITE_SUPABASE_URL'' = Some ''https://mine.supabase.co''"
    by (simp add: parseEnvFile_def parse_line_def js_trim_eval Let_def)
  from dev_env_file_ignored [OF h, of None "Some ''VITE_SUPABASE_URL=https://mine.supabase.co''"] h p show ?thesis by simp
qed

theorem production_build_runs_offline_witness:
  "\<not> is_dev_host ''example.com'' \<and> build_url Map.empty = [] \<and> sq_safe (build_key Map.empty)
   \<and> isInitialized (initializeApp (getSupabaseConfig (generated_config (build_url Map.empty, build_key Map.empty) ''example.com'') None)
        True (app0 demo_store))
   \<and> \<not> has_client (remote_st (app_store (initializeApp (getSupabaseConfig (generated_config
        (build_url Map.empty, build_key Map.empty) ''example.com'') None) True (app0 demo_store))))"
proof -
  have h: "\<not> is_dev_host ''example.com''" "build_url Map.empty = []" "sq_safe (build_key Map.empty)"
    by (simp_all add: is_dev_host_def build_url_def build_key_def or_empty_def sq_safe_def)
  from production_build_runs_offline [OF h, of None True "app0 demo_store"] h show ?thesis by simp
qed

end
